theory Spec2Isabelle
  imports Main
begin

section \<open>Go strings, runes and the library functions the program calls\<close>

text \<open>
  A Go \<^verbatim>\<open>string\<close> is a sequence of bytes: it is modelled as \<^typ>\<open>string\<close> (a list of
  8-bit characters). A \<^verbatim>\<open>rune\<close> is a Unicode code point. The program never does
  arithmetic on a rune, it only classifies it, so a rune is a natural number here.

  \<^verbatim>\<open>wrapText\<close> calls \<^verbatim>\<open>strings.Fields\<close>, \<^verbatim>\<open>utf8.RuneCountInString\<close>,
  \<^verbatim>\<open>strings.ContainsAny\<close> and \<^verbatim>\<open>strings.HasPrefix\<close> of the Go standard library. They
  are modelled on bytes, with the UTF-8 decoder of package \<^verbatim>\<open>unicode/utf8\<close> written out:
  an ill-formed or truncated encoding decodes to \<^verbatim>\<open>RuneError\<close> and has width one byte.
\<close>

type_synonym rune = nat

definition byte :: "char \<Rightarrow> nat" where
  "byte c = of_char c"

definition RuneError :: rune where
  "RuneError = 0xFFFD"

definition RuneSelf :: nat where
  "RuneSelf = 0x80"

definition MaxLatin1 :: rune where
  "MaxLatin1 = 0xFF"

text \<open>
  The table \<^verbatim>\<open>first\<close> of package utf8 classifies a leading byte at or above
  \<^verbatim>\<open>RuneSelf\<close>: the bytes \<^verbatim>\<open>0x80..0xC1\<close> and \<^verbatim>\<open>0xF5..0xFF\<close> are invalid (\<^verbatim>\<open>xx\<close>), the
  others give the size of the encoding and the range accepted for the second byte
  (\<^verbatim>\<open>acceptRanges\<close>); \<^verbatim>\<open>locb\<close> and \<^verbatim>\<open>hicb\<close> bound a continuation byte.
\<close>

definition first_invalid :: "nat \<Rightarrow> bool" where
  "first_invalid s0 = (s0 < 0xC2 \<or> 0xF4 < s0)"

definition first_size :: "nat \<Rightarrow> nat" where
  "first_size s0 = (if s0 < 0xE0 then 2 else if s0 < 0xF0 then 3 else 4)"

definition accept_lo :: "nat \<Rightarrow> nat" where
  "accept_lo s0 = (if s0 = 0xE0 then 0xA0 else if s0 = 0xF0 then 0x90 else 0x80)"

definition accept_hi :: "nat \<Rightarrow> nat" where
  "accept_hi s0 = (if s0 = 0xED then 0x9F else if s0 = 0xF4 then 0x8F else 0xBF)"

definition locb :: nat where
  "locb = 0x80"

definition hicb :: nat where
  "hicb = 0xBF"

text \<open>
  \<^verbatim>\<open>utf8.DecodeRuneInString\<close>: the first rune of the string and its width in bytes. The
  masks \<^verbatim>\<open>s0&mask2\<close>, \<^verbatim>\<open>s0&mask3\<close>, \<^verbatim>\<open>s0&mask4\<close>, \<^verbatim>\<open>s&maskx\<close> are the remainders modulo
  32, 16, 8 and 64, the shifts are multiplications.
\<close>

definition DecodeRuneInString :: "string \<Rightarrow> rune \<times> nat" where
  "DecodeRuneInString s =
     (if length s < 1 then (RuneError, 0)
      else
        let s0 = byte (s ! 0) in
        if s0 < RuneSelf then (s0, 1)
        else if first_invalid s0 then (RuneError, 1)
        else
          let sz = first_size s0 in
          if length s < sz then (RuneError, 1)
          else
            let s1 = byte (s ! 1) in
            if s1 < accept_lo s0 \<or> accept_hi s0 < s1 then (RuneError, 1)
            else if sz \<le> 2 then ((s0 mod 32) * 64 + s1 mod 64, 2)
            else
              let s2 = byte (s ! 2) in
              if s2 < locb \<or> hicb < s2 then (RuneError, 1)
              else if sz \<le> 3 then
                ((s0 mod 16) * 4096 + (s1 mod 64) * 64 + s2 mod 64, 3)
              else
                let s3 = byte (s ! 3) in
                if s3 < locb \<or> hicb < s3 then (RuneError, 1)
                else
                  ((s0 mod 8) * 262144 + (s1 mod 64) * 4096 + (s2 mod 64) * 64
                     + s3 mod 64, 4))"

lemma first_size_range: "2 \<le> first_size s0 \<and> first_size s0 \<le> 4"
  by (simp add: first_size_def)

lemma accept_range: "locb \<le> accept_lo s0 \<and> accept_hi s0 \<le> hicb"
  by (simp add: accept_lo_def accept_hi_def locb_def hicb_def)

lemma decode_size_le: "snd (DecodeRuneInString s) \<le> length s"
proof (cases s)
  case Nil
  then show ?thesis by (simp add: DecodeRuneInString_def)
next
  case (Cons c t)
  have "first_size (byte c) \<le> length s \<Longrightarrow> 2 \<le> length s"
    using first_size_range [of "byte c"] by simp
  then show ?thesis using Cons first_size_range [of "byte c"]
    by (simp add: DecodeRuneInString_def Let_def not_less)
qed

lemma decode_size_pos: "s \<noteq> [] \<Longrightarrow> 0 < snd (DecodeRuneInString s)"
  by (auto simp: DecodeRuneInString_def Let_def)

text \<open>
  The iteration \<^verbatim>\<open>for i, r := range s\<close> over a string: the runes of \<^verbatim>\<open>s\<close> in order, each
  with the bytes it was decoded from.
\<close>

function rangeString :: "string \<Rightarrow> (rune \<times> string) list" where
  "rangeString s =
     (if s = [] then []
      else (fst (DecodeRuneInString s), take (snd (DecodeRuneInString s)) s)
             # rangeString (drop (snd (DecodeRuneInString s)) s))"
  by pat_completeness auto
termination
  by (relation "measure length") (auto simp: decode_size_pos)

declare rangeString.simps [simp del]

text \<open>
  \<^verbatim>\<open>utf8.RuneCountInString\<close> counts the runes of the string, an erroneous or short
  encoding as one rune of width one byte.
\<close>

definition RuneCountInString :: "string \<Rightarrow> nat" where
  "RuneCountInString s = length (rangeString s)"

text \<open>\<^verbatim>\<open>unicode.IsSpace\<close>: the Latin-1 spaces, then the White_Space table.\<close>

definition IsSpace :: "rune \<Rightarrow> bool" where
  "IsSpace r =
     (if r \<le> MaxLatin1 then
        r = 0x09 \<or> r = 0x0A \<or> r = 0x0B \<or> r = 0x0C \<or> r = 0x0D \<or> r = 0x20
          \<or> r = 0x85 \<or> r = 0xA0
      else
        r = 0x1680 \<or> (0x2000 \<le> r \<and> r \<le> 0x200A) \<or> (0x2028 \<le> r \<and> r \<le> 0x2029)
          \<or> r = 0x202F \<or> r = 0x205F \<or> r = 0x3000)"

text \<open>
  \<^verbatim>\<open>strings.FieldsFunc\<close> walks the runes of the string with a span that is open while
  \<^verbatim>\<open>start >= 0\<close>. The open span is kept here as the bytes it holds (\<open>cur\<close>): a rune
  that is no separator has at least one byte, so the span is open exactly when
  \<open>cur\<close> is not empty. \<^verbatim>\<open>strings.Fields\<close> is \<^verbatim>\<open>FieldsFunc\<close> with \<^verbatim>\<open>unicode.IsSpace\<close> (its
  loop for a string of ASCII bytes only computes the same fields).
\<close>

fun fieldsLoop :: "(rune \<Rightarrow> bool) \<Rightarrow> string \<Rightarrow> (rune \<times> string) list \<Rightarrow> string list" where
  "fieldsLoop f cur [] = (if cur \<noteq> [] then [cur] else [])"
| "fieldsLoop f cur ((r, bs) # rest) =
     (if f r then
        (if cur \<noteq> [] then cur # fieldsLoop f [] rest else fieldsLoop f [] rest)
      else fieldsLoop f (cur @ bs) rest)"

definition FieldsFunc :: "string \<Rightarrow> (rune \<Rightarrow> bool) \<Rightarrow> string list" where
  "FieldsFunc s f = fieldsLoop f [] (rangeString s)"

definition Fields :: "string \<Rightarrow> string list" where
  "Fields s = FieldsFunc s IsSpace"

text \<open>
  \<^verbatim>\<open>strings.ContainsAny(s, chars)\<close> for ASCII \<^verbatim>\<open>chars\<close>: some byte of \<^verbatim>\<open>s\<close> is one of
  them (an ASCII byte always decodes as itself). \<^verbatim>\<open>strings.HasPrefix\<close> compares bytes.
\<close>

definition ContainsAny :: "string \<Rightarrow> string \<Rightarrow> bool" where
  "ContainsAny s chars = (\<exists>c \<in> set s. c \<in> set chars)"

definition HasPrefix :: "string \<Rightarrow> string \<Rightarrow> bool" where
  "HasPrefix s pre = (length pre \<le> length s \<and> take (length pre) s = pre)"

text \<open>
  \<^verbatim>\<open>strings.Split(s, sep)\<close>. The program splits at \<^verbatim>\<open>"\n"\<close> and at \<^verbatim>\<open>"."\<close> only, so the
  separator is one byte here: the pieces of \<^verbatim>\<open>s\<close> between the separators, one more
  than there are separators. The list is never empty, so the first branch of the
  \<^theory_text>\<open>case\<close> is never taken.
\<close>

fun Split :: "string \<Rightarrow> char \<Rightarrow> string list" where
  "Split [] sep = [[]]"
| "Split (c # s) sep =
     (if c = sep then [] # Split s sep
      else (case Split s sep of
              [] \<Rightarrow> [[c]]
            | piece # pieces \<Rightarrow> (c # piece) # pieces))"

text \<open>
  \<^verbatim>\<open>utf8.DecodeLastRuneInString\<close> steps back from the end to the nearest byte that can
  start a rune (\<^verbatim>\<open>RuneStart\<close>: not a continuation byte), at most \<^verbatim>\<open>UTFMax\<close> bytes from
  the end, and decodes from there; the rune counts only when it ends at the end.
\<close>

definition RuneStart :: "nat \<Rightarrow> bool" where
  "RuneStart b = (\<not> (0x80 \<le> b \<and> b \<le> 0xBF))"

definition UTFMax :: int where
  "UTFMax = 4"

function runeStartLoop :: "string \<Rightarrow> int \<Rightarrow> int \<Rightarrow> int" where
  "runeStartLoop s start lim =
     (if start \<ge> lim then
        (if RuneStart (byte (s ! nat start)) then start
         else runeStartLoop s (start - 1) lim)
      else start)"
  by pat_completeness auto
termination
  by (relation "measure (\<lambda>(s, start, lim). nat (start - lim + 1))") auto

declare runeStartLoop.simps [simp del]

definition DecodeLastRuneInString :: "string \<Rightarrow> rune \<times> nat" where
  "DecodeLastRuneInString s =
     (let end = int (length s) in
      if end = 0 then (RuneError, 0)
      else
        let start = end - 1;
            r = byte (s ! nat start)
        in
        if r < RuneSelf then (r, 1)
        else
          let lim = (if end - UTFMax < 0 then 0 else end - UTFMax);
              start1 = runeStartLoop s (start - 1) lim;
              start2 = (if start1 < 0 then 0 else start1);
              d = DecodeRuneInString (drop (nat start2) s)
          in
          if start2 + int (snd d) \<noteq> end then (RuneError, 1) else d)"

lemma runeStartLoop_le: "runeStartLoop s start lim \<le> start"
proof (induction s start lim rule: runeStartLoop.induct)
  case (1 s start lim)
  then show ?case by (subst runeStartLoop.simps) auto
qed

lemma decode_last_size:
  assumes "s \<noteq> []"
  shows "0 < snd (DecodeLastRuneInString s) \<and> snd (DecodeLastRuneInString s) \<le> length s"
proof -
  define e where "e = int (length s)"
  have e: "0 < e" "length s = nat e" using assms by (simp_all add: e_def)
  define lim where "lim = (if e - UTFMax < 0 then 0 else e - UTFMax)"
  define start1 where "start1 = runeStartLoop s (e - 1 - 1) lim"
  define start2 where "start2 = (if start1 < 0 then 0 else start1)"
  define d where "d = DecodeRuneInString (drop (nat start2) s)"
  have "start1 \<le> e - 2" using runeStartLoop_le [of s "e - 1 - 1" lim] by (simp add: start1_def)
  then have s2: "0 \<le> start2" "start2 < e" using e(1) by (auto simp: start2_def)
  have unf: "DecodeLastRuneInString s =
          (if byte (s ! nat (e - 1)) < RuneSelf then (byte (s ! nat (e - 1)), 1)
           else if start2 + int (snd d) \<noteq> e then (RuneError, 1) else d)"
  proof -
    have ne0: "(int (length s) = 0) = False" using assms by simp
    show ?thesis
      unfolding DecodeLastRuneInString_def Let_def d_def start2_def start1_def lim_def e_def
        ne0 if_False
      by (rule refl)
  qed
  have one: "0 < (1::nat) \<and> 1 \<le> length s" using e by simp
  show ?thesis
  proof (cases "byte (s ! nat (e - 1)) < RuneSelf")
    case True
    then show ?thesis using one by (simp add: unf)
  next
    case False
    show ?thesis
    proof (cases "start2 + int (snd d) \<noteq> e")
      case True
      then show ?thesis using False one by (simp add: unf)
    next
      case eq: False
      then have "int (snd d) = e - start2" by simp
      then have "0 < snd d" "snd d \<le> nat e" using s2 by linarith+
      then show ?thesis using False eq e(2) by (simp add: unf)
    qed
  qed
qed

text \<open>
  \<^verbatim>\<open>indexFunc\<close> and \<^verbatim>\<open>lastIndexFunc\<close> of package strings: the index of the first, and of
  the last, rune with \<^verbatim>\<open>f(r) == truth\<close>, or \<^verbatim>\<open>-1\<close>. The loop of \<^verbatim>\<open>lastIndexFunc\<close> runs
  on the prefix \<^verbatim>\<open>s[0:i]\<close>, which is the argument \<open>p\<close> here.
\<close>

fun indexLoop :: "(rune \<Rightarrow> bool) \<Rightarrow> bool \<Rightarrow> nat \<Rightarrow> (rune \<times> string) list \<Rightarrow> int" where
  "indexLoop f truth i [] = - 1"
| "indexLoop f truth i ((r, bs) # rest) =
     (if f r = truth then int i else indexLoop f truth (i + length bs) rest)"

definition indexFunc :: "string \<Rightarrow> (rune \<Rightarrow> bool) \<Rightarrow> bool \<Rightarrow> int" where
  "indexFunc s f truth = indexLoop f truth 0 (rangeString s)"

function lastIndexLoop :: "(rune \<Rightarrow> bool) \<Rightarrow> bool \<Rightarrow> string \<Rightarrow> int" where
  "lastIndexLoop f truth p =
     (if p \<noteq> [] then
        (if f (fst (DecodeLastRuneInString p)) = truth
         then int (length p - snd (DecodeLastRuneInString p))
         else lastIndexLoop f truth (take (length p - snd (DecodeLastRuneInString p)) p))
      else - 1)"
  by pat_completeness auto
termination
proof (relation "measure (\<lambda>(f, truth, p). length p)")
  show "wf (measure (\<lambda>(f, truth, p). length p))" by simp
next
  fix f :: "rune \<Rightarrow> bool" and truth :: bool and p :: string
  assume "p \<noteq> []"
  then have "0 < snd (DecodeLastRuneInString p)" using decode_last_size by blast
  then show "((f, truth, take (length p - snd (DecodeLastRuneInString p)) p), (f, truth, p))
               \<in> measure (\<lambda>(f, truth, p). length p)"
    using \<open>p \<noteq> []\<close> by simp
qed

declare lastIndexLoop.simps [simp del]

definition lastIndexFunc :: "string \<Rightarrow> (rune \<Rightarrow> bool) \<Rightarrow> bool \<Rightarrow> int" where
  "lastIndexFunc s f truth = lastIndexLoop f truth s"

text \<open>
  \<^verbatim>\<open>strings.TrimLeftFunc\<close>, \<^verbatim>\<open>TrimRightFunc\<close> and \<^verbatim>\<open>TrimFunc\<close>. \<^verbatim>\<open>strings.TrimSpace\<close> removes
  the leading and trailing white space as \<^verbatim>\<open>unicode.IsSpace\<close> defines it: it is
  \<^verbatim>\<open>TrimFunc\<close> with \<^verbatim>\<open>unicode.IsSpace\<close> (its own loops only shortcut the ASCII spaces).
\<close>

definition TrimLeftFunc :: "string \<Rightarrow> (rune \<Rightarrow> bool) \<Rightarrow> string" where
  "TrimLeftFunc s f =
     (let i = indexFunc s f False in if i = - 1 then [] else drop (nat i) s)"

definition TrimRightFunc :: "string \<Rightarrow> (rune \<Rightarrow> bool) \<Rightarrow> string" where
  "TrimRightFunc s f =
     (let i = lastIndexFunc s f False;
          i1 = (if i \<ge> 0 \<and> byte (s ! nat i) \<ge> RuneSelf
                then i + int (snd (DecodeRuneInString (drop (nat i) s)))
                else i + 1)
      in take (nat i1) s)"

definition TrimFunc :: "string \<Rightarrow> (rune \<Rightarrow> bool) \<Rightarrow> string" where
  "TrimFunc s f = TrimRightFunc (TrimLeftFunc s f) f"

definition TrimSpace :: "string \<Rightarrow> string" where
  "TrimSpace s = TrimFunc s IsSpace"

text \<open>
  The verb \<^verbatim>\<open>%d\<close> of \<^verbatim>\<open>fmt.Printf\<close> on an \<^verbatim>\<open>int\<close>: the decimal digits, after a minus sign
  for a negative number.
\<close>

definition digit :: "nat \<Rightarrow> char" where
  "digit d = char_of (48 + d)"

function formatNat :: "nat \<Rightarrow> string" where
  "formatNat n = (if n < 10 then [digit n] else formatNat (n div 10) @ [digit (n mod 10)])"
  by pat_completeness auto
termination
  by (relation "measure id") auto

declare formatNat.simps [simp del]

definition formatInt :: "int \<Rightarrow> string" where
  "formatInt i = (if i < 0 then CHR ''-'' # formatNat (nat (- i)) else formatNat (nat i))"

section \<open>The text wrapper\<close>

definition displayWidth :: nat where
  "displayWidth = 70"

text \<open>
  \<^verbatim>\<open>wrapText\<close> (main.go, lines 88 to 115) writes to a \<^verbatim>\<open>strings.Builder\<close> at four
  places. The builder is the list of the pieces written, one constructor for each
  place, and \<^verbatim>\<open>result.String()\<close> is their concatenation:
  line 96 writes the break of a full line, line 100 the separating space, line 103
  the word, line 109 the break after a sentence.
\<close>

datatype piece = WidthBreak | Space | Word string | SentenceBreak

fun bytes_of :: "piece \<Rightarrow> string" where
  "bytes_of WidthBreak = [CHR 0x0A]"
| "bytes_of Space = [CHR 0x20]"
| "bytes_of (Word w) = w"
| "bytes_of SentenceBreak = [CHR 0x0A]"

definition String :: "piece list \<Rightarrow> string" where
  "String result = concat (map bytes_of result)"

text \<open>
  One iteration of the loop over \<^verbatim>\<open>words\<close>, on the word at index \<^verbatim>\<open>i\<close> and the words
  after it: \<^verbatim>\<open>i < len(words)-1\<close> says that a word follows, and \<^verbatim>\<open>words[i+1]\<close> is the
  first of them. The state is the builder and \<^verbatim>\<open>current\<close>.
\<close>

definition sentenceEnd :: "string \<Rightarrow> string list \<Rightarrow> bool" where
  "sentenceEnd word rest =
     (rest \<noteq> [] \<and> ContainsAny word ''.!?'' \<and> \<not> HasPrefix (hd rest) '')''
        \<and> \<not> HasPrefix (hd rest) '','')"

fun wrapLoop :: "string list \<Rightarrow> piece list \<Rightarrow> nat \<Rightarrow> piece list" where
  "wrapLoop [] result current = result"
| "wrapLoop (word # rest) result current =
     (let wordLen = RuneCountInString word;
          (result1, current1) =
             (if current + wordLen + 1 > displayWidth \<and> current > 0
              then (result @ [WidthBreak], 0) else (result, current));
          (result2, current2) =
             (if current1 > 0 then (result1 @ [Space], current1 + 1)
              else (result1, current1));
          result3 = result2 @ [Word word];
          current3 = current2 + wordLen;
          (result4, current4) =
             (if sentenceEnd word rest then (result3 @ [SentenceBreak], 0)
              else (result3, current3))
      in wrapLoop rest result4 current4)"

definition wrapTrace :: "string \<Rightarrow> piece list" where
  "wrapTrace text = wrapLoop (Fields text) [] 0"

definition wrapText :: "string \<Rightarrow> string" where
  "wrapText text = String (wrapTrace text)"

section \<open>The corpus\<close>

text \<open>
  The structs of main.go, lines 15 to 70, as records. A nested struct is a record of
  its own; a field whose name is taken already carries the name of its struct. Go's
  \<^verbatim>\<open>int\<close> is \<^typ>\<open>int\<close>: the program compares and prints these numbers and never
  computes with them.
\<close>

record Meaning_t =
  Meaning_En :: string
  Meaning_Hi :: string

record Summary_t =
  Summary_En :: string
  Summary_Hi :: string

record Chapter =
  ChapterNumber :: int
  VersesCount :: int
  Name :: string
  Translation :: string
  Chapter_Transliteration :: string
  Meaning :: Meaning_t
  Summary :: Summary_t

record Tej_t =
  Tej_Author :: string
  Tej_Ht :: string

record Siva_t =
  Siva_Author :: string
  Siva_Et :: string
  Siva_Ec :: string

record Purohit_t =
  Purohit_Author :: string
  Purohit_Et :: string

record Chinmay_t =
  Chinmay_Author :: string
  Chinmay_Hc :: string

record San_t =
  San_Author :: string
  San_Et :: string

record Adi_t =
  Adi_Author :: string
  Adi_Et :: string

record Sloka =
  ID :: string
  Sloka_Chapter :: int
  Verse :: int
  Slok :: string
  Transliteration :: string
  Sloka_Tej :: Tej_t
  Sloka_Siva :: Siva_t
  Sloka_Purohit :: Purohit_t
  Sloka_Chinmay :: Chinmay_t
  Sloka_San :: San_t
  Sloka_Adi :: Adi_t

record AllSlokas =
  Chapters :: "Chapter list"
  Slokas :: "Sloka list"

text \<open>The translator constants (lines 76 to 83) and the ANSI styling (lines 118 to 122).\<close>

definition Siva :: string where
  "Siva = ''siva''"

definition Purohit :: string where
  "Purohit = ''purohit''"

definition Adi :: string where
  "Adi = ''adi''"

definition San :: string where
  "San = ''san''"

definition Tej :: string where
  "Tej = ''tej''"

definition Chinmay :: string where
  "Chinmay = ''chinmay''"

definition Bold :: string where
  "Bold = CHR 0x1B # ''[1m''"

definition Dim :: string where
  "Dim = CHR 0x1B # ''[2m''"

definition Reset :: string where
  "Reset = CHR 0x1B # ''[0m''"

section \<open>The program\<close>

text \<open>
  \<^verbatim>\<open>main\<close> (lines 124 to 256) is modelled from the parsed flags on. What the process
  does to the world is the list of its effects in program order: each call of
  \<^verbatim>\<open>fmt.Printf\<close> or \<^verbatim>\<open>fmt.Println\<close> is one write to the standard output (the program
  has no call that writes to the standard error stream), the read of the embedded file
  and the call of the JSON parser are effects of their own, and the last effect is the
  end of the process: \<^verbatim>\<open>os.Exit(1)\<close>, or status 0 when \<^verbatim>\<open>main\<close> returns. An index
  out of range would end the process in a panic.
\<close>

datatype stream = Stdout | Stderr

datatype effect =
    Write stream string
  | ReadFile string
  | Unmarshal
  | Exit int
  | Panic

record Flags =
  translationSource :: string
  includeChapter :: bool
  chapterFlag :: int
  verseFlag :: int

text \<open>The defaults of the four flags (lines 126 to 129).\<close>

definition defaultFlags :: Flags where
  "defaultFlags =
     \<lparr>translationSource = ''siva'', includeChapter = False, chapterFlag = 0, verseFlag = 0\<rparr>"

text \<open>
  What the program takes from outside: the result of \<^verbatim>\<open>gitaFS.ReadFile\<close> for a file name
  (the text of the error, or the bytes of the file \<^verbatim>\<open>gita.json\<close> that is embedded at build
  time), the result of \<^verbatim>\<open>json.Unmarshal\<close> on these bytes (the text of the error, or the
  corpus), and the number that \<^verbatim>\<open>rand.Intn(n)\<close> returns once the generator is seeded
  from the clock (line 180). The library promises \<^verbatim>\<open>0 <= rand.Intn(n) < n\<close>.
\<close>

record Env =
  gitaFS_ReadFile :: "string \<Rightarrow> string + string"
  json_Unmarshal :: "string \<Rightarrow> string + AllSlokas"
  rand_Intn :: "nat \<Rightarrow> nat"

text \<open>Lines 133 to 140: the loop over \<^verbatim>\<open>validSources\<close>.\<close>

definition validSources :: "string list" where
  "validSources = [Siva, Purohit, Adi, San, Tej, Chinmay]"

fun validSourceLoop :: "string list \<Rightarrow> string \<Rightarrow> bool" where
  "validSourceLoop [] src = False"
| "validSourceLoop (source # rest) src =
     (if src = source then True else validSourceLoop rest src)"

text \<open>Lines 166 to 173: the scan for the verse asked for, which stops at the first match.\<close>

fun findSloka :: "Sloka list \<Rightarrow> int \<Rightarrow> int \<Rightarrow> Sloka option" where
  "findSloka [] c v = None"
| "findSloka (sloka # rest) c v =
     (if Sloka_Chapter sloka = c \<and> Verse sloka = v then Some sloka
      else findSloka rest c v)"

text \<open>
  Lines 165 to 186: the verse selected, or the effects of the failure. The message of
  line 175 prints the two flags with \<^verbatim>\<open>%d\<close>.
\<close>

definition selectSloka :: "Flags \<Rightarrow> Env \<Rightarrow> AllSlokas \<Rightarrow> effect list + Sloka" where
  "selectSloka flags env allSlokas =
     (if chapterFlag flags > 0 \<and> verseFlag flags > 0 then
        (case findSloka (Slokas allSlokas) (chapterFlag flags) (verseFlag flags) of
           None \<Rightarrow>
             Inl [Write Stdout (''Chapter '' @ formatInt (chapterFlag flags) @ '', Verse ''
                    @ formatInt (verseFlag flags) @ '' not found.'' @ [CHR 0x0A]),
                  Exit 1]
         | Some sloka \<Rightarrow> Inr sloka)
      else if length (Slokas allSlokas) = 0 then
        Inl [Write Stdout (''No slokas found in the JSON data.'' @ [CHR 0x0A]), Exit 1]
      else
        (let i = rand_Intn env (length (Slokas allSlokas)) in
         if i < length (Slokas allSlokas) then Inr (Slokas allSlokas ! i) else Inl [Panic]))"

text \<open>Lines 192 to 204: the block of the first chapter with the number of the verse's chapter.\<close>

fun chapterInfo :: "Chapter list \<Rightarrow> int \<Rightarrow> effect list" where
  "chapterInfo [] n = []"
| "chapterInfo (chapter # rest) n =
     (if ChapterNumber chapter = n then
        [Write Stdout (Bold @ ''Chapter '' @ formatInt (ChapterNumber chapter) @ '': ''
           @ Name chapter @ Reset @ [CHR 0x0A])]
        @ (if Translation chapter \<noteq> [] then
             [Write Stdout (''('' @ Translation chapter @ '')'' @ [CHR 0x0A])]
           else [])
        @ (if Meaning_En (Meaning chapter) \<noteq> [] then
             [Write Stdout (wrapText (''Meaning: '' @ Meaning_En (Meaning chapter)) @ [CHR 0x0A])]
           else [])
        @ [Write Stdout [CHR 0x0A]]
      else chapterInfo rest n)"

text \<open>Line 208: the header of the verse.\<close>

definition verseHeader :: "Sloka \<Rightarrow> string" where
  "verseHeader sloka =
     Bold @ ''Chapter '' @ formatInt (Sloka_Chapter sloka) @ '', Verse ''
       @ formatInt (Verse sloka) @ Reset @ [CHR 0x0A, CHR 0x0A]"

text \<open>
  Lines 212 to 216 and 221 to 225: each line that is not blank is trimmed, wrapped and
  printed.
\<close>

fun printLines :: "string list \<Rightarrow> effect list" where
  "printLines [] = []"
| "printLines (line # rest) =
     (if TrimSpace line \<noteq> [] then
        Write Stdout (wrapText (TrimSpace line) @ [CHR 0x0A]) # printLines rest
      else printLines rest)"

text \<open>
  Lines 229 to 249: the \<^verbatim>\<open>switch\<close> on the translation source. It has no default: both
  variables keep the empty string when no case matches.
\<close>

definition pickTranslation :: "string \<Rightarrow> Sloka \<Rightarrow> string \<times> string" where
  "pickTranslation src selectedSloka =
     (if src = Siva then
        (Siva_Et (Sloka_Siva selectedSloka), Siva_Author (Sloka_Siva selectedSloka))
      else if src = Purohit then
        (Purohit_Et (Sloka_Purohit selectedSloka), Purohit_Author (Sloka_Purohit selectedSloka))
      else if src = Adi then
        (Adi_Et (Sloka_Adi selectedSloka), Adi_Author (Sloka_Adi selectedSloka))
      else if src = San then
        (San_Et (Sloka_San selectedSloka), San_Author (Sloka_San selectedSloka))
      else if src = Tej then
        (Tej_Ht (Sloka_Tej selectedSloka), Tej_Author (Sloka_Tej selectedSloka))
      else if src = Chinmay then
        (Chinmay_Hc (Sloka_Chinmay selectedSloka), Chinmay_Author (Sloka_Chinmay selectedSloka))
      else ([], []))"

text \<open>Lines 188 to 255: what is printed once a verse is selected.\<close>

definition present :: "Flags \<Rightarrow> AllSlokas \<Rightarrow> Sloka \<Rightarrow> effect list" where
  "present flags allSlokas selectedSloka =
     [Write Stdout [CHR 0x0A]]
     @ (if includeChapter flags
        then chapterInfo (Chapters allSlokas) (Sloka_Chapter selectedSloka) else [])
     @ [Write Stdout (verseHeader selectedSloka)]
     @ printLines (Split (Slok selectedSloka) (CHR 0x0A))
     @ [Write Stdout [CHR 0x0A]]
     @ printLines (Split (Transliteration selectedSloka) (CHR ''.''))
     @ [Write Stdout [CHR 0x0A]]
     @ (let (translationText, author) =
              pickTranslation (translationSource flags) selectedSloka
        in [Write Stdout (wrapText translationText @ [CHR 0x0A]),
            Write Stdout (Dim @ ''('' @ author @ '')'' @ Reset @ [CHR 0x0A])])
     @ [Write Stdout [CHR 0x0A]]"

definition main :: "Flags \<Rightarrow> Env \<Rightarrow> effect list" where
  "main flags env =
     (if \<not> validSourceLoop validSources (translationSource flags) then
        [Write Stdout (''Invalid translation source: '' @ translationSource flags @ [CHR 0x0A]),
         Write Stdout (''Valid sources: siva, purohit, adi, san, tej, chinmay'' @ [CHR 0x0A]),
         Exit 1]
      else
        ReadFile ''gita.json'' #
        (case gitaFS_ReadFile env ''gita.json'' of
           Inl err \<Rightarrow>
             [Write Stdout (''Error reading embedded data: '' @ err @ [CHR 0x0A]), Exit 1]
         | Inr data \<Rightarrow>
             Unmarshal #
             (case json_Unmarshal env data of
                Inl err \<Rightarrow> [Write Stdout (''Error parsing JSON: '' @ err @ [CHR 0x0A]), Exit 1]
              | Inr allSlokas \<Rightarrow>
                  (case selectSloka flags env allSlokas of
                     Inl failure \<Rightarrow> failure
                   | Inr selectedSloka \<Rightarrow> present flags allSlokas selectedSloka @ [Exit 0]))))"

text \<open>What a run wrote to a stream: the texts of its writes to it, in order.\<close>

fun written :: "stream \<Rightarrow> effect list \<Rightarrow> string" where
  "written st [] = []"
| "written st (Write st' s # es) = (if st' = st then s @ written st es else written st es)"
| "written st (e # es) = written st es"

section \<open>What the statements observe\<close>

text \<open>
  The words of a builder with, for each word, whether the piece written right after it
  is the break of line 109.
\<close>

fun breaksAfter :: "piece list \<Rightarrow> (string \<times> bool) list" where
  "breaksAfter [] = []"
| "breaksAfter (Word w # SentenceBreak # ps) = (w, True) # breaksAfter ps"
| "breaksAfter (Word w # ps) = (w, False) # breaksAfter ps"
| "breaksAfter (p # ps) = breaksAfter ps"

text \<open>
  Words joined by separators, one separator between two consecutive words; where the
  separators run out the words are joined directly.
\<close>

fun interleave :: "string list \<Rightarrow> char list \<Rightarrow> string" where
  "interleave [] seps = []"
| "interleave [w] seps = w"
| "interleave (w # ws) [] = w @ interleave ws []"
| "interleave (w # ws) (c # seps) = w @ c # interleave ws seps"

text \<open>The two bytes that the wrapper writes between words.\<close>

definition is_sep :: "char \<Rightarrow> bool" where
  "is_sep c = (c = CHR 0x20 \<or> c = CHR 0x0A)"

section \<open>Notions of the proofs\<close>

text \<open>
  A string is a boundary when a rune that ends right before it is decoded the same
  way whatever follows: it is empty or starts with a byte that is no continuation
  byte. A list of runes with their bytes is valid when decoding its bytes gives the
  list back. A token is not empty and none of its runes is white space.
\<close>

definition boundary :: "string \<Rightarrow> bool" where
  "boundary b = (b = [] \<or> byte (hd b) < locb \<or> hicb < byte (hd b))"

definition valid :: "(rune \<times> string) list \<Rightarrow> bool" where
  "valid cs = (rangeString (concat (map snd cs)) = cs)"

definition tokenOK :: "string \<Rightarrow> bool" where
  "tokenOK w = (w \<noteq> [] \<and> (\<forall>x \<in> set (rangeString w). \<not> IsSpace (fst x)))"

text \<open>
  The pieces that one iteration of the loop of \<^verbatim>\<open>wrapText\<close> writes before and after the
  word, and the value of \<^verbatim>\<open>current\<close> it leaves.
\<close>

definition before_word :: "nat \<Rightarrow> string \<Rightarrow> piece list" where
  "before_word cur w =
     (if cur + RuneCountInString w + 1 > displayWidth \<and> cur > 0 then [WidthBreak]
      else if cur > 0 then [Space] else [])"

definition after_word :: "string \<Rightarrow> string list \<Rightarrow> piece list" where
  "after_word w rest = (if sentenceEnd w rest then [SentenceBreak] else [])"

definition next_current :: "nat \<Rightarrow> string \<Rightarrow> string list \<Rightarrow> nat" where
  "next_current cur w rest =
     (if sentenceEnd w rest then 0
      else (if cur + RuneCountInString w + 1 > displayWidth \<and> cur > 0 then 0
            else if cur > 0 then cur + 1 else cur) + RuneCountInString w)"

text \<open>
  The invariant of the loop on the lines written so far: each line has at most
  \<^verbatim>\<open>displayWidth\<close> runes or is one of the tokens \<open>T\<close>, and \<^verbatim>\<open>current\<close> is the number of runes
  of the last line.
\<close>

definition okline :: "string set \<Rightarrow> string \<Rightarrow> bool" where
  "okline T l = (RuneCountInString l \<le> displayWidth \<or> l \<in> T)"

definition lines_inv :: "string set \<Rightarrow> piece list \<Rightarrow> nat \<Rightarrow> bool" where
  "lines_inv T result cur =
     ((\<forall>l \<in> set (Split (String result) (CHR 0x0A)). okline T l)
       \<and> RuneCountInString (last (Split (String result) (CHR 0x0A))) = cur)"

section \<open>An example corpus\<close>

text \<open>
  A corpus of three verses and one chapter, an environment that loads it, and a word
  of 71 letters: the concrete inputs at which the theorems below are exercised. The
  second and the third verse share chapter and verse number; the first verse is of a
  chapter that the corpus does not list.
\<close>

definition ex_sloka :: Sloka where
  "ex_sloka =
     \<lparr>ID = ''BG2.47'', Sloka_Chapter = 2, Verse = 47,
      Slok = ''karmany eva'' @ [CHR 0x0A] @ ''  ma phalesu '' @ [CHR 0x0A],
      Transliteration = ''karmany eva. ma phalesu.'',
      Sloka_Tej = \<lparr>Tej_Author = ''Tejomayananda'', Tej_Ht = ''tej ht''\<rparr>,
      Sloka_Siva = \<lparr>Siva_Author = ''Swami Sivananda'',
                    Siva_Et = ''Do thy duty.  Seek not the fruit.'', Siva_Ec = ''siva ec''\<rparr>,
      Sloka_Purohit = \<lparr>Purohit_Author = ''Purohit Swami'', Purohit_Et = ''purohit et''\<rparr>,
      Sloka_Chinmay = \<lparr>Chinmay_Author = ''Chinmayananda'', Chinmay_Hc = ''chinmay hc''\<rparr>,
      Sloka_San = \<lparr>San_Author = ''Sankaranarayan'', San_Et = ''san et''\<rparr>,
      Sloka_Adi = \<lparr>Adi_Author = ''Adidevananda'', Adi_Et = ''adi et''\<rparr>\<rparr>"

definition ex_chapter :: Chapter where
  "ex_chapter =
     \<lparr>ChapterNumber = 2, VersesCount = 72, Name = ''Sankhya Yoga'',
      Translation = ''Transcendental Knowledge'', Chapter_Transliteration = ''Sankhya Yog'',
      Meaning = \<lparr>Meaning_En = ''The Yoga of Knowledge'', Meaning_Hi = []\<rparr>,
      Summary = \<lparr>Summary_En = [], Summary_Hi = []\<rparr>\<rparr>"

definition ex_corpus :: AllSlokas where
  "ex_corpus =
     \<lparr>Chapters = [ex_chapter],
      Slokas = [ex_sloka\<lparr>ID := ''BG1.1'', Sloka_Chapter := 1, Verse := 1\<rparr>,
                ex_sloka,
                ex_sloka\<lparr>ID := ''again''\<rparr>]\<rparr>"

definition ex_env :: Env where
  "ex_env =
     \<lparr>gitaFS_ReadFile = (\<lambda>name. if name = ''gita.json'' then Inr ''{}'' else Inl ''file does not exist''),
      json_Unmarshal = (\<lambda>data. Inr ex_corpus),
      rand_Intn = (\<lambda>n. n - 1)\<rparr>"

definition long_word :: string where
  "long_word = replicate 71 (CHR ''a'')"

text \<open>The example environment with the draw at index 0, the first verse.\<close>

definition ex_env_first :: Env where
  "ex_env_first = ex_env\<lparr>rand_Intn := (\<lambda>n. 0)\<rparr>"

text \<open>
  Environments in which the dataset has no verse, does not parse, and cannot be read.
\<close>

definition ex_env_empty :: Env where
  "ex_env_empty = ex_env\<lparr>json_Unmarshal := (\<lambda>data. Inr \<lparr>Chapters = [], Slokas = []\<rparr>)\<rparr>"

definition ex_env_malformed :: Env where
  "ex_env_malformed = ex_env\<lparr>json_Unmarshal := (\<lambda>data. Inl ''unexpected end of JSON input'')\<rparr>"

definition ex_env_unreadable :: Env where
  "ex_env_unreadable = ex_env\<lparr>gitaFS_ReadFile := (\<lambda>name. Inl ''file does not exist'')\<rparr>"

text \<open>
  A text of two words of 18 letters \<^verbatim>\<open>U+00E9\<close> each, two bytes a letter: 73 bytes and 37
  runes.
\<close>

definition e_acute :: string where
  "e_acute = [CHR 0xC3, CHR 0xA9]"

definition accented :: string where
  "accented = concat (replicate 18 e_acute) @ '' '' @ concat (replicate 18 e_acute)"

section \<open>Properties of the decoder and of the field splitter\<close>

lemma decode_append:
  assumes "a \<noteq> []" and "boundary b"
  shows "DecodeRuneInString (a @ b) = DecodeRuneInString a"
proof (cases "b = []")
  case True
  then show ?thesis by simp
next
  case False
  then obtain c b' where b: "b = c # b'" by (cases b) auto
  with assms have nc: "byte c < locb \<or> hicb < byte c" by (simp add: boundary_def)
  define s0 where "s0 = byte (a ! 0)"
  have sz: "2 \<le> first_size s0" "first_size s0 \<le> 4" using first_size_range by auto
  have ar: "locb \<le> accept_lo s0" "accept_hi s0 \<le> hicb" using accept_range by auto
  have "0 < length a" using assms(1) by simp
  then consider (l1) "length a = 1" | (l2) "length a = 2" | (l3) "length a = 3" | (l4) "4 \<le> length a"
    by linarith
  then show ?thesis
  proof cases
    case l1
    then show ?thesis using nc sz ar
      by (auto simp: DecodeRuneInString_def Let_def nth_append b s0_def)
  next
    case l2
    then show ?thesis using nc sz ar
      by (auto simp: DecodeRuneInString_def Let_def nth_append b s0_def)
  next
    case l3
    then show ?thesis using nc sz ar
      by (auto simp: DecodeRuneInString_def Let_def nth_append b s0_def)
  next
    case l4
    then show ?thesis using sz
      by (auto simp: DecodeRuneInString_def Let_def nth_append s0_def)
  qed
qed

lemma decode_prefix:
  assumes "a \<noteq> []" and "snd (DecodeRuneInString (a @ b)) \<le> length a"
  shows "DecodeRuneInString a = DecodeRuneInString (a @ b)"
proof -
  define s0 where "s0 = byte (a ! 0)"
  have sz: "2 \<le> first_size s0" "first_size s0 \<le> 4" using first_size_range by auto
  have "0 < length a" using assms(1) by simp
  then consider (l1) "length a = 1" | (l2) "length a = 2" | (l3) "length a = 3" | (l4) "4 \<le> length a"
    by linarith
  then show ?thesis
  proof cases
    case l1
    then show ?thesis using sz assms(2)
      by (auto simp: DecodeRuneInString_def Let_def nth_append s0_def split: if_splits)
  next
    case l2
    then show ?thesis using sz assms(2)
      by (auto simp: DecodeRuneInString_def Let_def nth_append s0_def split: if_splits)
  next
    case l3
    then show ?thesis using sz assms(2)
      by (auto simp: DecodeRuneInString_def Let_def nth_append s0_def split: if_splits)
  next
    case l4
    then show ?thesis using sz
      by (auto simp: DecodeRuneInString_def Let_def nth_append s0_def)
  qed
qed

lemma decode_ascii: "s \<noteq> [] \<Longrightarrow> byte (hd s) < RuneSelf \<Longrightarrow> DecodeRuneInString s = (byte (hd s), 1)"
  by (cases s) (auto simp: DecodeRuneInString_def Let_def)

lemma IsSpace_RuneError: "\<not> IsSpace RuneError"
  by (simp add: IsSpace_def RuneError_def MaxLatin1_def)

lemma decode_space_boundary:
  assumes "s \<noteq> []" "IsSpace (fst (DecodeRuneInString s))"
  shows "boundary s"
proof (rule ccontr)
  assume nb: "\<not> boundary s"
  then have "locb \<le> byte (hd s)" "byte (hd s) \<le> hicb" by (auto simp: boundary_def)
  then have "DecodeRuneInString s = (RuneError, 1)" using assms(1)
    by (cases s) (auto simp: DecodeRuneInString_def Let_def locb_def hicb_def RuneSelf_def first_invalid_def)
  with assms(2) show False by (simp add: IsSpace_RuneError)
qed

lemma rangeString_Nil [simp]: "rangeString [] = []"
  by (simp add: rangeString.simps)

lemma rangeString_Cons:
  "s \<noteq> [] \<Longrightarrow> rangeString s =
     (fst (DecodeRuneInString s), take (snd (DecodeRuneInString s)) s)
       # rangeString (drop (snd (DecodeRuneInString s)) s)"
  by (subst rangeString.simps) simp

lemma rangeString_eq_Nil [simp]: "rangeString s = [] \<longleftrightarrow> s = []"
  by (subst rangeString.simps) simp

lemma concat_rangeString: "concat (map snd (rangeString s)) = s"
proof (induction s rule: rangeString.induct)
  case (1 s)
  show ?case
  proof (cases "s = []")
    case True
    then show ?thesis by simp
  next
    case False
    then show ?thesis using 1 by (simp add: rangeString_Cons)
  qed
qed

lemma rangeString_append:
  "boundary b \<Longrightarrow> rangeString (a @ b) = rangeString a @ rangeString b"
proof (induction a rule: rangeString.induct)
  case (1 a)
  show ?case
  proof (cases "a = []")
    case True
    then show ?thesis by simp
  next
    case False
    let ?n = "snd (DecodeRuneInString a)"
    have d: "DecodeRuneInString (a @ b) = DecodeRuneInString a"
      using False 1(2) by (rule decode_append)
    have n: "?n \<le> length a" by (rule decode_size_le)
    have "rangeString (a @ b) =
            (fst (DecodeRuneInString a), take ?n a) # rangeString (drop ?n a @ b)"
      using False n by (simp add: rangeString_Cons [of "a @ b"] d)
    also have "rangeString (drop ?n a @ b) = rangeString (drop ?n a) @ rangeString b"
      using 1(1) [OF False] 1(2) by simp
    finally show ?thesis using False by (simp add: rangeString_Cons [of a])
  qed
qed

lemma boundary_ascii: "byte c < RuneSelf \<Longrightarrow> boundary (c # s)"
  by (simp add: boundary_def RuneSelf_def locb_def)

lemma rangeString_ascii:
  "byte c < RuneSelf \<Longrightarrow> rangeString (c # s) = (byte c, [c]) # rangeString s"
  by (simp add: rangeString_Cons decode_ascii)

lemma valid_rangeString: "valid (rangeString s)"
  by (simp add: valid_def concat_rangeString)

lemma valid_Nil [simp]: "valid []"
  by (simp add: valid_def)

lemma valid_ConsD:
  assumes "valid ((r, c) # cs)"
  shows "c \<noteq> []" and "DecodeRuneInString (c @ concat (map snd cs)) = (r, length c)"
    and "valid cs"
proof -
  let ?s = "c @ concat (map snd cs)"
  let ?n = "snd (DecodeRuneInString ?s)"
  have rs: "rangeString ?s = (r, c) # cs" using assms by (simp add: valid_def)
  have ne: "?s \<noteq> []"
  proof
    assume "?s = []"
    then have "rangeString ?s = []" by (simp only: rangeString_Nil)
    with rs show False by simp
  qed
  from rs have eqs: "fst (DecodeRuneInString ?s) = r" "take ?n ?s = c"
    "rangeString (drop ?n ?s) = cs"
    by (simp_all add: rangeString_Cons [OF ne])
  have "?n \<le> length ?s" by (rule decode_size_le)
  with eqs(2) have n: "?n = length c"
    by (metis length_take min.absorb2)
  moreover have "0 < ?n" using ne by (rule decode_size_pos)
  ultimately show "c \<noteq> []" by auto
  show "DecodeRuneInString ?s = (r, length c)" using eqs(1) n by (simp add: prod_eq_iff)
  show "valid cs" using eqs(3) n by (simp add: valid_def)
qed

lemma valid_suffix: "valid (xs @ ys) \<Longrightarrow> valid ys"
proof (induction xs)
  case Nil
  then show ?case by simp
next
  case (Cons x xs)
  then show ?case by (cases x) (auto dest: valid_ConsD(3))
qed

lemma valid_prefix: "valid (xs @ ys) \<Longrightarrow> valid xs"
proof (induction xs)
  case Nil
  then show ?case by simp
next
  case (Cons x xs)
  obtain r c where x: "x = (r, c)" by (cases x)
  from Cons.prems have v: "valid ((r, c) # (xs @ ys))" by (simp add: x)
  note d = valid_ConsD [OF v]
  have vx: "valid xs" using Cons.IH d(3) by simp
  let ?a = "c @ concat (map snd xs)"
  have "DecodeRuneInString ?a = DecodeRuneInString (?a @ concat (map snd ys))"
    using d(1) d(2) by (intro decode_prefix) auto
  then have da: "DecodeRuneInString ?a = (r, length c)" using d(2) by simp
  have "rangeString ?a = (r, c) # rangeString (concat (map snd xs))"
    using d(1) by (simp add: rangeString_Cons [of ?a] da)
  then show ?case using vx by (simp add: valid_def x)
qed

lemma fieldsLoop_tokens:
  "valid (acc @ cs) \<Longrightarrow> \<forall>x\<in>set acc. \<not> IsSpace (fst x) \<Longrightarrow>
     w \<in> set (fieldsLoop IsSpace (concat (map snd acc)) cs) \<Longrightarrow> tokenOK w"
proof (induction cs arbitrary: acc)
  case Nil
  then show ?case by (auto simp: tokenOK_def valid_def split: if_splits)
next
  case (Cons x cs)
  obtain r c where x: "x = (r, c)" by (cases x)
  show ?case
  proof (cases "IsSpace r")
    case True
    have va: "valid acc" using Cons.prems(1) by (rule valid_prefix)
    have vc: "valid ([] @ cs)" using Cons.prems(1) valid_suffix [of "acc @ [x]" cs] by simp
    define cur where "cur = concat (map snd acc)"
    from Cons.prems(3) True have "w \<in> set (if cur \<noteq> [] then cur # fieldsLoop IsSpace [] cs else fieldsLoop IsSpace [] cs)"
      unfolding cur_def x by simp
    then have "w = cur \<and> w \<noteq> [] \<or> w \<in> set (fieldsLoop IsSpace [] cs)"
      by (cases "cur = []") auto
    then have "w = concat (map snd acc) \<and> w \<noteq> [] \<or> w \<in> set (fieldsLoop IsSpace (concat (map snd [])) cs)"
      unfolding cur_def by simp
    then show ?thesis
    proof
      assume "w = concat (map snd acc) \<and> w \<noteq> []"
      then show ?thesis using va Cons.prems(2) by (auto simp: tokenOK_def valid_def)
    next
      assume "w \<in> set (fieldsLoop IsSpace (concat (map snd [])) cs)"
      then show ?thesis using Cons.IH [OF vc] by simp
    qed
  next
    case False
    have "w \<in> set (fieldsLoop IsSpace (concat (map snd (acc @ [x]))) cs)"
      using Cons.prems(3) False by (simp add: x)
    moreover have "valid ((acc @ [x]) @ cs)" using Cons.prems(1) by simp
    moreover have "\<forall>y\<in>set (acc @ [x]). \<not> IsSpace (fst y)" using Cons.prems(2) False by (simp add: x)
    ultimately show ?thesis by (rule Cons.IH [rotated 2])
  qed
qed

lemma Fields_tokenOK: "w \<in> set (Fields s) \<Longrightarrow> tokenOK w"
  using fieldsLoop_tokens [of "[]" "rangeString s" w]
  by (simp add: Fields_def FieldsFunc_def valid_rangeString)

lemma fieldsLoop_nonspace:
  "\<forall>x\<in>set cs. \<not> f (fst x) \<Longrightarrow>
     fieldsLoop f cur (cs @ rest) = fieldsLoop f (cur @ concat (map snd cs)) rest"
  by (induction cs arbitrary: cur) auto

lemma Fields_token: "tokenOK w \<Longrightarrow> Fields w = [w]"
  using fieldsLoop_nonspace [of "rangeString w" IsSpace "[]" "[]"]
  by (simp add: Fields_def FieldsFunc_def tokenOK_def concat_rangeString)

lemma is_sep_ascii: "is_sep c \<Longrightarrow> byte c < RuneSelf \<and> IsSpace (byte c)"
  by (auto simp: is_sep_def byte_def RuneSelf_def IsSpace_def MaxLatin1_def)

lemma Fields_sep: "is_sep c \<Longrightarrow> Fields (c # s) = Fields s"
  by (simp add: Fields_def FieldsFunc_def rangeString_ascii is_sep_ascii)

lemma Fields_token_sep:
  assumes "tokenOK w" "is_sep c"
  shows "Fields (w @ c # s) = w # Fields s"
proof -
  have "rangeString (w @ c # s) = rangeString w @ (byte c, [c]) # rangeString s"
    using assms(2) by (simp add: rangeString_append boundary_ascii rangeString_ascii is_sep_ascii)
  then show ?thesis
    using assms fieldsLoop_nonspace [of "rangeString w" IsSpace "[]" "(byte c, [c]) # rangeString s"]
    by (simp add: Fields_def FieldsFunc_def tokenOK_def concat_rangeString is_sep_ascii)
qed

section \<open>Properties of the text wrapper\<close>

lemma wrapLoop_step:
  "wrapLoop (w # rest) result cur =
     wrapLoop rest (result @ before_word cur w @ [Word w] @ after_word w rest)
       (next_current cur w rest)"
  by (simp add: before_word_def after_word_def next_current_def Let_def)

declare wrapLoop.simps(2) [simp del]

lemma wrapLoop_acc: "wrapLoop ws result cur = result @ wrapLoop ws [] cur"
proof (induction ws arbitrary: result cur)
  case Nil
  then show ?case by simp
next
  case (Cons w ws)
  show ?case
    unfolding wrapLoop_step
    by (subst Cons.IH) (subst (2) Cons.IH, simp)
qed

lemma wrapLoop_Cons:
  "wrapLoop (w # rest) [] cur =
     before_word cur w @ [Word w] @ after_word w rest @ wrapLoop rest [] (next_current cur w rest)"
  unfolding wrapLoop_step by (subst wrapLoop_acc) simp

lemma String_append [simp]: "String (xs @ ys) = String xs @ String ys"
  by (simp add: String_def)

lemma String_Nil [simp]: "String [] = []"
  by (simp add: String_def)

lemma String_Word [simp]: "String (Word w # ps) = w @ String ps"
  by (simp add: String_def)

lemma tokenOK_count_pos: "tokenOK w \<Longrightarrow> 0 < RuneCountInString w"
  by (simp add: tokenOK_def RuneCountInString_def)

lemma String_before_word:
  "String (before_word cur w) = [] \<and> cur = 0 \<or>
   (\<exists>c. is_sep c \<and> String (before_word cur w) = [c] \<and> 0 < cur)"
  by (auto simp: before_word_def String_def is_sep_def)

lemma wrapLoop_interleave:
  "list_all tokenOK ws \<Longrightarrow> ws \<noteq> [] \<Longrightarrow>
     \<exists>seps. length seps = length ws - 1 \<and> list_all is_sep seps \<and>
       String (wrapLoop ws [] cur) = String (before_word cur (hd ws)) @ interleave ws seps"
proof (induction ws arbitrary: cur)
  case Nil
  then show ?case by simp
next
  case (Cons w ws)
  show ?case
  proof (cases ws)
    case Nil
    then show ?thesis
      by (simp add: wrapLoop_Cons after_word_def sentenceEnd_def)
  next
    case more: (Cons v vs)
    let ?cur = "next_current cur w ws"
    from Cons.prems more have "list_all tokenOK ws" "ws \<noteq> []" by simp_all
    from Cons.IH [OF this, of ?cur] obtain seps where
      seps: "length seps = length ws - 1" "list_all is_sep seps"
        "String (wrapLoop ws [] ?cur) = String (before_word ?cur (hd ws)) @ interleave ws seps"
      by blast
    have wpos: "0 < RuneCountInString w" using Cons.prems(1) by (simp add: tokenOK_count_pos)
    have "\<exists>c. is_sep c \<and> String (after_word w ws) @ String (before_word ?cur (hd ws)) = [c]"
    proof (cases "sentenceEnd w ws")
      case True
      then show ?thesis
        by (simp add: after_word_def next_current_def before_word_def String_def is_sep_def)
    next
      case False
      then have "0 < ?cur" using wpos by (simp add: next_current_def)
      then show ?thesis using False String_before_word [of ?cur "hd ws"]
        by (auto simp: after_word_def)
    qed
    then obtain c where c: "is_sep c"
      "String (after_word w ws) @ String (before_word ?cur (hd ws)) = [c]" by blast
    have "String (wrapLoop (w # ws) [] cur) =
            String (before_word cur w) @ w @ (String (after_word w ws) @ String (before_word ?cur (hd ws))) @ interleave ws seps"
      by (simp add: wrapLoop_Cons seps(3))
    also have "\<dots> = String (before_word cur w) @ interleave (w # ws) (c # seps)"
      using c(2) more by simp
    finally show ?thesis using c(1) seps(1,2) more
      by (intro exI [of _ "c # seps"]) simp
  qed
qed

lemma Fields_interleave:
  "list_all tokenOK ws \<Longrightarrow> list_all is_sep seps \<Longrightarrow> length seps = length ws - 1 \<Longrightarrow>
     Fields (interleave ws seps) = ws"
proof (induction ws seps rule: interleave.induct)
  case (1 seps)
  then show ?case by (simp add: Fields_def FieldsFunc_def)
next
  case (2 w seps)
  then show ?case by (simp add: Fields_token)
next
  case (3 w v va)
  then show ?case by simp
next
  case (4 w v va c seps)
  then show ?case by (simp add: Fields_token_sep)
qed

lemma Fields_list_all: "list_all tokenOK (Fields s)"
  by (simp add: list_all_iff Fields_tokenOK)

lemma wrapText_interleave:
  "\<exists>seps. length seps = length (Fields s) - 1 \<and> list_all is_sep seps \<and>
     wrapText s = interleave (Fields s) seps"
proof (cases "Fields s = []")
  case True
  then show ?thesis by (simp add: wrapText_def wrapTrace_def)
next
  case False
  from wrapLoop_interleave [OF Fields_list_all False, of 0]
  show ?thesis by (simp add: wrapText_def wrapTrace_def before_word_def)
qed

lemma Fields_wrapText: "Fields (wrapText s) = Fields s"
proof -
  obtain seps where "length seps = length (Fields s) - 1" "list_all is_sep seps"
     "wrapText s = interleave (Fields s) seps"
    using wrapText_interleave by blast
  then show ?thesis by (simp add: Fields_interleave Fields_list_all)
qed

lemma wrapText_idem: "wrapText (wrapText s) = wrapText s"
  by (simp add: wrapText_def [of "wrapText s"] wrapTrace_def [of "wrapText s"] Fields_wrapText)
     (simp add: wrapText_def wrapTrace_def)

section \<open>The lines of the wrapped text\<close>

lemma Split_ne [simp]: "Split s sep \<noteq> []"
  by (induction s) (auto split: list.splits)

lemma Split_Cons [simp]:
  "Split (c # s) sep =
     (if c = sep then [] # Split s sep else (c # hd (Split s sep)) # tl (Split s sep))"
  using Split_ne [of s sep] by (cases "Split s sep") auto

declare Split.simps(2) [simp del]

lemma Split_nosep: "sep \<notin> set b \<Longrightarrow> Split b sep = [b]"
  by (induction b) auto

lemma Split_append:
  "Split (a @ b) sep =
     butlast (Split a sep) @ [last (Split a sep) @ hd (Split b sep)] @ tl (Split b sep)"
proof (induction a)
  case Nil
  then show ?case by simp
next
  case (Cons c a)
  show ?case
  proof (cases "c = sep")
    case True
    then show ?thesis using Cons by simp
  next
    case False
    show ?thesis
    proof (cases "butlast (Split a sep) = []")
      case True
      then have "Split a sep = [last (Split a sep)]"
        by (metis Split_ne append_butlast_last_id append_Nil)
      then obtain l where l: "Split a sep = [l]" by blast
      show ?thesis using False Cons by (simp add: l)
    next
      case False2: False
      then obtain x xs where x: "Split a sep = x # xs" "xs \<noteq> []"
        by (cases "Split a sep") (auto split: if_splits)
      show ?thesis using False Cons by (simp add: x)
    qed
  qed
qed

lemma decode_multibyte:
  assumes "1 < snd (DecodeRuneInString s)" "i < snd (DecodeRuneInString s)"
  shows "RuneSelf \<le> byte (s ! i)"
proof -
  define s0 where "s0 = byte (s ! 0)"
  have ar: "locb \<le> accept_lo s0" "accept_hi s0 \<le> hicb" using accept_range by auto
  have i: "i = 0 \<or> i = 1 \<or> i = 2 \<or> i = 3"
    using assms(2) first_size_range [of s0]
    by (auto simp: DecodeRuneInString_def Let_def s0_def split: if_splits)
  show ?thesis
    using assms ar i
    by (auto simp: DecodeRuneInString_def Let_def s0_def locb_def RuneSelf_def split: if_splits)
qed

lemma ascii_chunk:
  "c \<in> set s \<Longrightarrow> byte c < RuneSelf \<Longrightarrow> (byte c, [c]) \<in> set (rangeString s)"
proof (induction s rule: rangeString.induct)
  case (1 s)
  let ?n = "snd (DecodeRuneInString s)"
  from 1(2) have ne: "s \<noteq> []" by auto
  have n: "?n \<le> length s" "0 < ?n" using ne by (simp_all add: decode_size_le decode_size_pos)
  from 1(2) have "c \<in> set (take ?n s) \<or> c \<in> set (drop ?n s)"
    by (metis Un_iff append_take_drop_id set_append)
  then show ?case
  proof
    assume "c \<in> set (drop ?n s)"
    then show ?thesis using 1(1) [OF ne] 1(3) by (simp add: rangeString_Cons [OF ne])
  next
    assume "c \<in> set (take ?n s)"
    then obtain i where i: "i < ?n" "c = s ! i"
      using n(1) by (auto simp: in_set_conv_nth)
    have "\<not> 1 < ?n" using decode_multibyte [of s i] i 1(3) by auto
    with n(2) i have "?n = 1" "i = 0" by auto
    then have c: "c = hd s" using i(2) ne by (simp add: hd_conv_nth)
    have "DecodeRuneInString s = (byte c, 1)" using ne 1(3) unfolding c by (rule decode_ascii)
    then show ?thesis using ne c by (cases s) (simp_all add: rangeString_Cons)
  qed
qed

lemma tokenOK_no_sep:
  assumes "tokenOK w" "is_sep c"
  shows "c \<notin> set w"
proof
  assume "c \<in> set w"
  then have "(byte c, [c]) \<in> set (rangeString w)"
    using is_sep_ascii [OF assms(2)] by (intro ascii_chunk) simp_all
  then have "\<not> IsSpace (fst (byte c, [c]))"
    using assms(1) unfolding tokenOK_def by blast
  then show False using is_sep_ascii [OF assms(2)] by simp
qed

lemma RuneCount_Nil [simp]: "RuneCountInString [] = 0"
  by (simp add: RuneCountInString_def)

lemma RuneCount_append_sep:
  "is_sep c \<Longrightarrow> RuneCountInString (a @ c # b) = RuneCountInString a + 1 + RuneCountInString b"
  by (simp add: RuneCountInString_def rangeString_append boundary_ascii rangeString_ascii is_sep_ascii)

lemma RuneCount_eq_0 [simp]: "RuneCountInString s = 0 \<longleftrightarrow> s = []"
  by (simp add: RuneCountInString_def)

lemma nl_sep: "is_sep (CHR 0x0A)" and sp_sep: "is_sep (CHR 0x20)"
  by (simp_all add: is_sep_def)

lemma lines_inv_step:
  assumes inv: "lines_inv T result cur" and w: "tokenOK w" "w \<in> T"
  shows "lines_inv T (result @ before_word cur w @ [Word w] @ after_word w rest)
           (next_current cur w rest)"
proof -
  let ?nl = "CHR 0x0A"
  let ?out = "String result"
  let ?ls = "Split ?out ?nl"
  let ?wl = "RuneCountInString w"
  have nlw: "?nl \<notin> set w" using w(1) nl_sep by (rule tokenOK_no_sep)
  have ls: "?ls = butlast ?ls @ [last ?ls]" by simp
  have okb: "\<forall>l \<in> set (butlast ?ls). okline T l"
    using inv by (auto simp: lines_inv_def dest: in_set_butlastD)
  have cur: "RuneCountInString (last ?ls) = cur" using inv by (simp add: lines_inv_def)
  define mid where "mid = result @ before_word cur w @ [Word w]"
  define cur3 where "cur3 = (if cur + ?wl + 1 > displayWidth \<and> cur > 0 then 0
            else if cur > 0 then cur + 1 else cur) + ?wl"
  have mid: "lines_inv T mid cur3"
  proof -
    consider (brk) "cur + ?wl + 1 > displayWidth" "cur > 0"
      | (sp) "\<not> cur + ?wl + 1 > displayWidth" "cur > 0" | (first) "cur = 0" by linarith
    then show ?thesis
    proof cases
      case brk
      have "String mid = ?out @ ?nl # w"
        using brk by (simp add: mid_def before_word_def String_def)
      moreover have "Split (?out @ ?nl # w) ?nl = ?ls @ [w]"
        using nlw by (simp add: Split_append [of ?out] Split_nosep)
      ultimately show ?thesis using inv w brk
        by (simp add: lines_inv_def okline_def cur3_def)
    next
      case sp
      have "String mid = ?out @ CHR 0x20 # w"
        using sp by (simp add: mid_def before_word_def String_def)
      moreover have "Split (?out @ CHR 0x20 # w) ?nl = butlast ?ls @ [last ?ls @ CHR 0x20 # w]"
        using nlw by (simp add: Split_append [of ?out] Split_nosep)
      moreover have "RuneCountInString (last ?ls @ CHR 0x20 # w) = cur + 1 + ?wl"
        using cur by (simp add: RuneCount_append_sep sp_sep)
      ultimately show ?thesis using okb sp
        by (simp add: lines_inv_def okline_def cur3_def)
    next
      case first
      then have l: "last ?ls = []" using cur by simp
      have "String mid = ?out @ w"
        using first by (simp add: mid_def before_word_def String_def)
      moreover have "Split (?out @ w) ?nl = butlast ?ls @ [w]"
        using nlw by (simp add: Split_append [of ?out] Split_nosep l)
      ultimately show ?thesis using okb first w
        by (simp add: lines_inv_def okline_def cur3_def)
    qed
  qed
  show ?thesis
  proof (cases "sentenceEnd w rest")
    case True
    have "Split (String mid @ [?nl]) ?nl = Split (String mid) ?nl @ [[]]"
      by (simp add: Split_append [of "String mid"])
    then show ?thesis using mid True
      by (simp add: lines_inv_def okline_def after_word_def next_current_def mid_def String_def)
  next
    case False
    then show ?thesis using mid
      by (simp add: after_word_def next_current_def mid_def cur3_def)
  qed
qed

lemma wrapLoop_lines:
  "lines_inv T result cur \<Longrightarrow> list_all tokenOK ws \<Longrightarrow> set ws \<subseteq> T \<Longrightarrow>
     \<exists>cur'. lines_inv T (wrapLoop ws result cur) cur'"
proof (induction ws arbitrary: result cur)
  case Nil
  then show ?case by auto
next
  case (Cons w ws)
  have "lines_inv T (result @ before_word cur w @ [Word w] @ after_word w ws)
           (next_current cur w ws)"
    using Cons.prems by (intro lines_inv_step) auto
  then show ?case using Cons.IH Cons.prems by (simp add: wrapLoop_step)
qed

lemma wrapText_lines:
  "l \<in> set (Split (wrapText s) (CHR 0x0A)) \<Longrightarrow>
     RuneCountInString l \<le> displayWidth \<or> l \<in> set (Fields s)"
proof -
  have "lines_inv (set (Fields s)) [] 0"
    by (simp add: lines_inv_def okline_def String_def)
  from wrapLoop_lines [OF this Fields_list_all subset_refl]
  obtain cur' where "lines_inv (set (Fields s)) (wrapLoop (Fields s) [] 0) cur'" by blast
  then show "l \<in> set (Split (wrapText s) (CHR 0x0A)) \<Longrightarrow> ?thesis"
    by (simp add: lines_inv_def okline_def wrapText_def wrapTrace_def)
qed

lemma interleave_ends:
  "list_all tokenOK ws \<Longrightarrow> ws \<noteq> [] \<Longrightarrow>
     interleave ws seps \<noteq> [] \<and> hd (interleave ws seps) = hd (hd ws)
       \<and> last (interleave ws seps) = last (last ws)"
proof (induction ws seps rule: interleave.induct)
  case (1 seps)
  then show ?case by simp
next
  case (2 w seps)
  then show ?case by (simp add: tokenOK_def)
next
  case (3 w v va)
  then show ?case by (simp add: tokenOK_def)
next
  case (4 w v va c seps)
  then show ?case by (simp add: tokenOK_def)
qed

lemma Split_interleave:
  "list_all tokenOK ws \<Longrightarrow> ws \<noteq> [] \<Longrightarrow> [] \<notin> set (Split (interleave ws seps) (CHR 0x0A))"
proof (induction ws seps rule: interleave.induct)
  case (1 seps)
  then show ?case by simp
next
  case (2 w seps)
  then have "CHR 0x0A \<notin> set w" "w \<noteq> []"
    using tokenOK_no_sep [OF _ nl_sep] by (auto simp: tokenOK_def)
  then show ?case by (simp add: Split_nosep del: Split_Cons)
next
  case (3 w v va)
  then have w: "CHR 0x0A \<notin> set w" "w \<noteq> []"
    using tokenOK_no_sep [OF _ nl_sep] by (auto simp: tokenOK_def)
  let ?r = "Split (interleave (v # va) []) (CHR 0x0A)"
  have ih: "[] \<notin> set ?r" using 3 by simp
  have "Split (w @ interleave (v # va) []) (CHR 0x0A) = (w @ hd ?r) # tl ?r"
    using w by (simp add: Split_append [of w] Split_nosep del: Split_Cons)
  moreover have "[] \<notin> set (tl ?r)" using ih by (metis list.set_sel(2) Split_ne)
  ultimately show ?case using w by (simp del: Split_Cons)
next
  case (4 w v va c seps)
  then have w: "CHR 0x0A \<notin> set w" "w \<noteq> []"
    using tokenOK_no_sep [OF _ nl_sep] by (auto simp: tokenOK_def)
  let ?r = "Split (interleave (v # va) seps) (CHR 0x0A)"
  have ih: "[] \<notin> set ?r" using 4 by simp
  have tl: "[] \<notin> set (tl ?r)" using ih by (metis list.set_sel(2) Split_ne)
  show ?case
  proof (cases "c = CHR 0x0A")
    case True
    have "Split (w @ c # interleave (v # va) seps) (CHR 0x0A) = w # ?r"
      using w True by (simp add: Split_append [of w] Split_nosep)
    then show ?thesis using w ih by (simp del: Split_Cons)
  next
    case False
    have "Split (w @ c # interleave (v # va) seps) (CHR 0x0A) = (w @ c # hd ?r) # tl ?r"
      using w False by (simp add: Split_append [of w] Split_nosep)
    then show ?thesis using tl by (simp del: Split_Cons)
  qed
qed

lemma wrapText_ends:
  assumes "Fields s \<noteq> []"
  shows "[] \<notin> set (Split (wrapText s) (CHR 0x0A))
     \<and> wrapText s \<noteq> []
     \<and> hd (wrapText s) \<notin> {CHR 0x20, CHR 0x0A}
     \<and> last (wrapText s) \<notin> {CHR 0x20, CHR 0x0A}"
proof -
  obtain seps where w: "wrapText s = interleave (Fields s) seps"
    using wrapText_interleave by blast
  note e = interleave_ends [OF Fields_list_all assms, of seps]
  have "hd (Fields s) \<in> set (Fields s)" "last (Fields s) \<in> set (Fields s)"
    using assms by simp_all
  then have t: "tokenOK (hd (Fields s))" "tokenOK (last (Fields s))"
    using Fields_tokenOK by blast+
  have h: "hd (hd (Fields s)) \<in> set (hd (Fields s))" "last (last (Fields s)) \<in> set (last (Fields s))"
    using t by (simp_all add: tokenOK_def)
  have "c \<notin> {CHR 0x20, CHR 0x0A}" if "c \<in> set w" "tokenOK w" for c w
    using that tokenOK_no_sep [OF that(2) sp_sep] tokenOK_no_sep [OF that(2) nl_sep] by auto
  then have "hd (hd (Fields s)) \<notin> {CHR 0x20, CHR 0x0A}" "last (last (Fields s)) \<notin> {CHR 0x20, CHR 0x0A}"
    using h t by blast+
  then show ?thesis
    unfolding w using e Split_interleave [OF Fields_list_all assms, of seps] by simp
qed

lemma accented_facts:
  "length accented = 73" "wrapText accented = accented"
  unfolding accented_def e_acute_def by code_simp+

lemma accented_split0: "Split accented (CHR 0x0A) = [accented]"
  unfolding accented_def e_acute_def by code_simp

lemma accented_split: "Split (wrapText accented) (CHR 0x0A) = [accented]"
  by (simp only: accented_facts accented_split0)

lemma accented_fields:
  "Fields accented = [concat (replicate 18 e_acute), concat (replicate 18 e_acute)]"
  unfolding accented_def e_acute_def by code_simp

section \<open>The breaks after a sentence\<close>

lemma breaksAfter_before: "breaksAfter (before_word cur w @ ps) = breaksAfter ps"
  by (simp add: before_word_def)

lemma breaksAfter_loop:
  "breaksAfter (wrapLoop ws [] cur) =
     map (\<lambda>i. (ws ! i, Suc i < length ws \<and> ContainsAny (ws ! i) ''.!?''
                  \<and> \<not> HasPrefix (ws ! Suc i) '')'' \<and> \<not> HasPrefix (ws ! Suc i) '','')) [0..<length ws]"
proof (induction ws arbitrary: cur)
  case Nil
  then show ?case by simp
next
  case (Cons w ws)
  have hd: "breaksAfter (Word w # after_word w ws @ ps) = (w, sentenceEnd w ws) # breaksAfter ps" 
    if "ps = [] \<or> hd ps \<noteq> SentenceBreak" for ps
    using that by (cases ps; cases "hd ps") (auto simp: after_word_def)
  have nsb: "wrapLoop ws [] c = [] \<or> hd (wrapLoop ws [] c) \<noteq> SentenceBreak" for c
    by (cases ws) (auto simp: wrapLoop_Cons before_word_def)
  have se: "sentenceEnd w ws = (0 < length ws \<and> ContainsAny w ''.!?''
                  \<and> \<not> HasPrefix (ws ! 0) '')'' \<and> \<not> HasPrefix (ws ! 0) '','')"
    by (cases ws) (auto simp: sentenceEnd_def)
  have sh: "[Suc 0..<Suc (length ws)] = map Suc [0..<length ws]"
    by (simp only: map_Suc_upt)
  show ?case
    by (simp add: wrapLoop_Cons breaksAfter_before hd [OF nsb] Cons.IH se upt_conv_Cons del: upt_Suc)
       (simp add: sh o_def del: upt_Suc)
qed

section \<open>The claims about the text wrapper\<close>

lemma is_sep_set: "list_all is_sep seps \<Longrightarrow> set seps \<subseteq> {CHR 0x20, CHR 0x0A}"
  by (auto simp: list_all_iff is_sep_def)

lemma Fields_no_sep:
  "[] \<notin> set (Fields s) \<and> CHR 0x20 \<notin> set (concat (Fields s)) \<and> CHR 0x0A \<notin> set (concat (Fields s))"
  using Fields_tokenOK [of _ s] tokenOK_no_sep [OF _ sp_sep] tokenOK_no_sep [OF _ nl_sep]
  by (auto simp: tokenOK_def)

text \<open>
  Claim C10. Splitting the wrapped text at white space gives the tokens of the input,
  in the same order: the wrapper drops, splits, merges, reorders and alters no word.
  The wrapped text is the tokens of the input with exactly one separator, a space or a
  line break, between two consecutive tokens and nothing before the first or after
  the last; a token is not empty and holds neither a space nor a line break. So, when
  the input has a token at all, the wrapped text has no empty line and neither starts
  nor ends with a separator.
\<close>

theorem wrapText_preserves_tokens:
  "Fields (wrapText text) = Fields text
   \<and> (\<exists>seps. length seps = length (Fields text) - 1
         \<and> set seps \<subseteq> {CHR 0x20, CHR 0x0A}
         \<and> wrapText text = interleave (Fields text) seps)
   \<and> [] \<notin> set (Fields text)
   \<and> CHR 0x20 \<notin> set (concat (Fields text))
   \<and> CHR 0x0A \<notin> set (concat (Fields text))
   \<and> (Fields text \<noteq> [] \<longrightarrow>
         [] \<notin> set (Split (wrapText text) (CHR 0x0A))
         \<and> wrapText text \<noteq> []
         \<and> hd (wrapText text) \<notin> {CHR 0x20, CHR 0x0A}
         \<and> last (wrapText text) \<notin> {CHR 0x20, CHR 0x0A})"
proof -
  obtain seps where "length seps = length (Fields text) - 1" "list_all is_sep seps"
     "wrapText text = interleave (Fields text) seps"
    using wrapText_interleave by blast
  then have "\<exists>seps. length seps = length (Fields text) - 1
         \<and> set seps \<subseteq> {CHR 0x20, CHR 0x0A}
         \<and> wrapText text = interleave (Fields text) seps"
    using is_sep_set by blast
  then show ?thesis using Fields_wrapText Fields_no_sep wrapText_ends by blast
qed

lemma spaced_fields:
  "Fields ('' Hello   world.'' @ [CHR 0x0A, CHR 0x0A, CHR 0x09] @ ''Bye! '')
     = [''Hello'', ''world.'', ''Bye!'']"
  by code_simp

text \<open>
  At a text with white space before, between and after its three words: the words
  come back from the wrapped text, which starts and ends with a letter or a mark.
\<close>

theorem wrapText_preserves_tokens_witness:
  "Fields (wrapText ('' Hello   world.'' @ [CHR 0x0A, CHR 0x0A, CHR 0x09] @ ''Bye! ''))
     = [''Hello'', ''world.'', ''Bye!'']
   \<and> [] \<notin> set (Split (wrapText ('' Hello   world.'' @ [CHR 0x0A, CHR 0x0A, CHR 0x09] @ ''Bye! ''))
                  (CHR 0x0A))
   \<and> hd (wrapText ('' Hello   world.'' @ [CHR 0x0A, CHR 0x0A, CHR 0x09] @ ''Bye! ''))
        \<notin> {CHR 0x20, CHR 0x0A}
   \<and> last (wrapText ('' Hello   world.'' @ [CHR 0x0A, CHR 0x0A, CHR 0x09] @ ''Bye! ''))
        \<notin> {CHR 0x20, CHR 0x0A}"
proof -
  let ?t = "'' Hello   world.'' @ [CHR 0x0A, CHR 0x0A, CHR 0x09] @ ''Bye! ''"
  note t = wrapText_preserves_tokens [of ?t]
  have ne: "Fields ?t \<noteq> []" by (simp only: spaced_fields) simp
  from t have "Fields (wrapText ?t) = Fields ?t" by blast
  then have "Fields (wrapText ?t) = [''Hello'', ''world.'', ''Bye!'']"
    by (simp only: spaced_fields)
  moreover from t ne have "[] \<notin> set (Split (wrapText ?t) (CHR 0x0A))
      \<and> hd (wrapText ?t) \<notin> {CHR 0x20, CHR 0x0A}
      \<and> last (wrapText ?t) \<notin> {CHR 0x20, CHR 0x0A}"
    by blast
  ultimately show ?thesis by blast
qed

text \<open>
  Claim C5. Wrapping is idempotent: wrapping a wrapped text again, where the line
  breaks count as white space, gives the same text with the same line breaks.
\<close>

theorem wrapText_idempotent: "wrapText (wrapText text) = wrapText text"
  by (rule wrapText_idem)

lemma wrapText_single: "Fields s = [w] \<Longrightarrow> wrapText s = w"
  by (simp add: wrapText_def wrapTrace_def wrapLoop_Cons before_word_def after_word_def sentenceEnd_def)

text \<open>
  Claim C4. The width is 70. A line of the wrapped text with more than 70 runes is one
  token of the input, alone on its line; a line of two or more tokens, the spaces
  between them counted, has at most 70 runes. A text that is one single word (of any
  length, so also of more than 70 runes) is returned as it is, on one line; the empty
  string wraps to the empty string.
\<close>

theorem wrapText_width_bound:
  "displayWidth = 70
   \<and> (\<forall>l \<in> set (Split (wrapText text) (CHR 0x0A)).
         displayWidth < RuneCountInString l \<longrightarrow> l \<in> set (Fields text) \<and> Fields l = [l])
   \<and> (\<forall>l \<in> set (Split (wrapText text) (CHR 0x0A)).
         2 \<le> length (Fields l) \<longrightarrow> RuneCountInString l \<le> displayWidth)
   \<and> (Fields text = [text] \<longrightarrow>
         wrapText text = text \<and> Split (wrapText text) (CHR 0x0A) = [text])
   \<and> wrapText [] = []"
proof -
  have a: "l \<in> set (Fields text) \<and> Fields l = [l]"
    if "l \<in> set (Split (wrapText text) (CHR 0x0A))" "displayWidth < RuneCountInString l" for l
  proof -
    have "l \<in> set (Fields text)" using wrapText_lines [OF that(1)] that(2) by simp
    then show ?thesis using Fields_tokenOK Fields_token by blast
  qed
  have b: "RuneCountInString l \<le> displayWidth"
    if "l \<in> set (Split (wrapText text) (CHR 0x0A))" "2 \<le> length (Fields l)" for l
  proof (rule ccontr)
    assume "\<not> RuneCountInString l \<le> displayWidth"
    then have "Fields l = [l]" using a [OF that(1)] by simp
    then show False using that(2) by simp
  qed
  have c: "wrapText text = text \<and> Split (wrapText text) (CHR 0x0A) = [text]"
    if "Fields text = [text]"
  proof -
    have w: "wrapText text = text" using that by (rule wrapText_single)
    have "tokenOK text" using Fields_tokenOK [of "text" "text"] that by simp
    then have "CHR 0x0A \<notin> set text" using nl_sep by (rule tokenOK_no_sep)
    then show ?thesis using w by (simp add: Split_nosep)
  qed
  have d: "wrapText [] = []"
    by (simp add: wrapText_def wrapTrace_def Fields_def FieldsFunc_def)
  have e: "displayWidth = 70" by (simp add: displayWidth_def)
  show ?thesis using a b c d e by blast
qed

lemma long_wrap: "wrapText (long_word @ '' bb c'') = long_word @ [CHR 0x0A] @ ''bb c''"
  unfolding long_word_def by code_simp

lemma long_split0: "Split (long_word @ [CHR 0x0A] @ ''bb c'') (CHR 0x0A) = [long_word, ''bb c'']"
  unfolding long_word_def by code_simp

lemma long_split: "Split (wrapText (long_word @ '' bb c'')) (CHR 0x0A) = [long_word, ''bb c'']"
  by (simp only: long_wrap long_split0)

lemma long_count: "RuneCountInString long_word = 71"
  unfolding long_word_def by code_simp

text \<open>
  At a word of 71 letters followed by two short words: the long word stands alone on
  the first line, which has 71 runes, and it is a token of the input. At two words of
  18 two-byte letters each: the line of the two words has 73 bytes and 37 runes, and it
  is not broken.
\<close>

theorem wrapText_width_bound_witness:
  "Split (wrapText (long_word @ '' bb c'')) (CHR 0x0A) = [long_word, ''bb c'']
   \<and> RuneCountInString long_word = 71
   \<and> long_word \<in> set (Fields (long_word @ '' bb c''))
   \<and> Fields long_word = [long_word]
   \<and> wrapText long_word = long_word
   \<and> Split (wrapText accented) (CHR 0x0A) = [accented]
   \<and> length (Fields accented) = 2
   \<and> length accented = 73
   \<and> RuneCountInString accented \<le> 70"
proof -
  have n71: "displayWidth < RuneCountInString long_word"
    by (simp add: long_count displayWidth_def)
  have m1: "long_word \<in> set (Split (wrapText (long_word @ '' bb c'')) (CHR 0x0A))"
    by (simp only: long_split) simp
  from wrapText_width_bound [of "long_word @ '' bb c''"] m1 n71
  have a: "long_word \<in> set (Fields (long_word @ '' bb c''))" "Fields long_word = [long_word]"
    by blast+
  from wrapText_width_bound [of long_word] a(2)
  have b: "wrapText long_word = long_word"
    by blast
  have m2: "accented \<in> set (Split (wrapText accented) (CHR 0x0A))"
    by (simp only: accented_split) simp
  have two: "length (Fields accented) = 2"
    by (simp only: accented_fields) simp
  then have two': "2 \<le> length (Fields accented)"
    by (simp only:)
  from wrapText_width_bound [of accented] m2 two'
  have "RuneCountInString accented \<le> displayWidth"
    by blast
  then have c: "RuneCountInString accented \<le> 70"
    by (simp only: displayWidth_def)
  show ?thesis
    by (intro conjI long_split long_count a b accented_split two accented_facts(1) c)
qed

text \<open>
  Claim C3, as the code has it. The break of line 109 is written right after a word
  exactly when a word follows, the word holds one of the marks \<^verbatim>\<open>.\<close>, \<^verbatim>\<open>!\<close>, \<^verbatim>\<open>?\<close> at any
  place (\<^verbatim>\<open>strings.ContainsAny\<close>, not at its end only), and the next word starts neither
  with \<^verbatim>\<open>)\<close> nor with a comma. Wrapping \<^verbatim>\<open>Hello world. Bye!\<close> gives the two lines
  \<^verbatim>\<open>Hello world.\<close> and \<^verbatim>\<open>Bye!\<close>.
\<close>

theorem sentence_break_rule:
  "breaksAfter (wrapTrace text) =
     map (\<lambda>i. (Fields text ! i,
                Suc i < length (Fields text)
                  \<and> ContainsAny (Fields text ! i) ''.!?''
                  \<and> \<not> HasPrefix (Fields text ! Suc i) '')''
                  \<and> \<not> HasPrefix (Fields text ! Suc i) '',''))
         [0..<length (Fields text)]
   \<and> wrapText ''Hello world. Bye!'' = ''Hello world.'' @ [CHR 0x0A] @ ''Bye!''
   \<and> Split (wrapText ''Hello world. Bye!'') (CHR 0x0A) = [''Hello world.'', ''Bye!'']"
proof -
  have a: "wrapText ''Hello world. Bye!'' = ''Hello world.'' @ [CHR 0x0A] @ ''Bye!''"
    by code_simp
  have b: "Split (''Hello world.'' @ [CHR 0x0A] @ ''Bye!'') (CHR 0x0A) = [''Hello world.'', ''Bye!'']"
    by code_simp
  show ?thesis
    unfolding wrapTrace_def using breaksAfter_loop [of "Fields text" 0] a b by (simp only:)
qed

text \<open>
  The claim as the specification words it fails: the word \<^verbatim>\<open>3.14\<close> does not end in a mark,
  and still the break is written after it.
\<close>

theorem sentence_break_counterexample:
  "breaksAfter (wrapTrace ''3.14 is pi'') = [(''3.14'', True), (''is'', False), (''pi'', False)]
   \<and> last ''3.14'' \<notin> set ''.!?''
   \<and> wrapText ''3.14 is pi'' = ''3.14'' @ [CHR 0x0A] @ ''is pi''"
  by code_simp

section \<open>The claims about the program\<close>

lemma validSourceLoop_set: "validSourceLoop xs src \<longleftrightarrow> src \<in> set xs"
  by (induction xs) auto

lemma validSources_set:
  "set validSources = {''siva'', ''purohit'', ''adi'', ''san'', ''tej'', ''chinmay''}"
  by (auto simp: validSources_def Siva_def Purohit_def Adi_def San_def Tej_def Chinmay_def)

lemma findSloka_None:
  "findSloka xs c v = None \<longleftrightarrow> (\<forall>s \<in> set xs. \<not> (Sloka_Chapter s = c \<and> Verse s = v))"
  by (induction xs) auto

lemma findSloka_first:
  "i < length xs \<Longrightarrow> Sloka_Chapter (xs ! i) = c \<and> Verse (xs ! i) = v \<Longrightarrow>
     \<forall>j < i. \<not> (Sloka_Chapter (xs ! j) = c \<and> Verse (xs ! j) = v) \<Longrightarrow>
     findSloka xs c v = Some (xs ! i)"
proof (induction xs arbitrary: i)
  case Nil
  then show ?case by simp
next
  case (Cons x xs)
  show ?case
  proof (cases i)
    case 0
    then show ?thesis using Cons.prems by simp
  next
    case (Suc k)
    have "\<not> (Sloka_Chapter x = c \<and> Verse x = v)" using Cons.prems(3) Suc by force
    moreover have "findSloka xs c v = Some (xs ! k)"
      using Cons.prems Suc by (intro Cons.IH) force+
    ultimately show ?thesis using Suc by auto
  qed
qed

lemma main_loaded:
  "validSourceLoop validSources (translationSource flags) \<Longrightarrow>
   gitaFS_ReadFile env ''gita.json'' = Inr data \<Longrightarrow> json_Unmarshal env data = Inr allSlokas \<Longrightarrow>
   main flags env =
     ReadFile ''gita.json'' # Unmarshal #
       (case selectSloka flags env allSlokas of
          Inl failure \<Rightarrow> failure
        | Inr selectedSloka \<Rightarrow> present flags allSlokas selectedSloka @ [Exit 0])"
  by (simp add: main_def)

lemma header_in_present: "Write Stdout (verseHeader s) \<in> set (present flags allSlokas s)"
  by (simp add: present_def)

text \<open>
  Claim C1. With both flags positive, a valid translation source and a dataset that
  loads: when no verse of the corpus has the chapter and verse number of the flags, the
  run reads and parses the dataset, prints the message of line 175 and exits with status
  1, having printed nothing else; when the verse at index \<open>i\<close> has them and no verse
  before it does, that verse is selected, the run goes on to print it and ends with
  status 0, and the header printed reads \<^verbatim>\<open>Chapter c, Verse v\<close> for the values of the
  flags.
\<close>

theorem exact_lookup:
  assumes "0 < chapterFlag flags" and "0 < verseFlag flags"
    and "translationSource flags \<in> set validSources"
    and "gitaFS_ReadFile env ''gita.json'' = Inr data"
    and "json_Unmarshal env data = Inr allSlokas"
  shows
    "((\<forall>s \<in> set (Slokas allSlokas).
          \<not> (Sloka_Chapter s = chapterFlag flags \<and> Verse s = verseFlag flags)) \<longrightarrow>
        main flags env =
          [ReadFile ''gita.json'', Unmarshal,
           Write Stdout (''Chapter '' @ formatInt (chapterFlag flags) @ '', Verse ''
              @ formatInt (verseFlag flags) @ '' not found.'' @ [CHR 0x0A]),
           Exit 1])
     \<and> (\<forall>i < length (Slokas allSlokas).
          Sloka_Chapter (Slokas allSlokas ! i) = chapterFlag flags
            \<and> Verse (Slokas allSlokas ! i) = verseFlag flags
            \<and> (\<forall>j < i. \<not> (Sloka_Chapter (Slokas allSlokas ! j) = chapterFlag flags
                          \<and> Verse (Slokas allSlokas ! j) = verseFlag flags)) \<longrightarrow>
          selectSloka flags env allSlokas = Inr (Slokas allSlokas ! i)
            \<and> main flags env =
                 [ReadFile ''gita.json'', Unmarshal]
                   @ present flags allSlokas (Slokas allSlokas ! i) @ [Exit 0]
            \<and> verseHeader (Slokas allSlokas ! i) =
                 Bold @ ''Chapter '' @ formatInt (chapterFlag flags) @ '', Verse ''
                   @ formatInt (verseFlag flags) @ Reset @ [CHR 0x0A, CHR 0x0A]
            \<and> Write Stdout (verseHeader (Slokas allSlokas ! i)) \<in> set (main flags env))"
proof -
  have v: "validSourceLoop validSources (translationSource flags)"
    using assms(3) by (simp add: validSourceLoop_set)
  note m = main_loaded [OF v assms(4) assms(5)]
  have none: "main flags env =
          [ReadFile ''gita.json'', Unmarshal,
           Write Stdout (''Chapter '' @ formatInt (chapterFlag flags) @ '', Verse ''
              @ formatInt (verseFlag flags) @ '' not found.'' @ [CHR 0x0A]),
           Exit 1]"
    if "\<forall>s \<in> set (Slokas allSlokas).
          \<not> (Sloka_Chapter s = chapterFlag flags \<and> Verse s = verseFlag flags)"
  proof -
    have "findSloka (Slokas allSlokas) (chapterFlag flags) (verseFlag flags) = None"
      using that by (simp add: findSloka_None)
    then show ?thesis using assms(1,2) by (simp add: m selectSloka_def)
  qed
  have some: "selectSloka flags env allSlokas = Inr (Slokas allSlokas ! i)
            \<and> main flags env =
                 [ReadFile ''gita.json'', Unmarshal]
                   @ present flags allSlokas (Slokas allSlokas ! i) @ [Exit 0]
            \<and> verseHeader (Slokas allSlokas ! i) =
                 Bold @ ''Chapter '' @ formatInt (chapterFlag flags) @ '', Verse ''
                   @ formatInt (verseFlag flags) @ Reset @ [CHR 0x0A, CHR 0x0A]
            \<and> Write Stdout (verseHeader (Slokas allSlokas ! i)) \<in> set (main flags env)"
    if "i < length (Slokas allSlokas)"
      and "Sloka_Chapter (Slokas allSlokas ! i) = chapterFlag flags
            \<and> Verse (Slokas allSlokas ! i) = verseFlag flags"
      and "\<forall>j < i. \<not> (Sloka_Chapter (Slokas allSlokas ! j) = chapterFlag flags
                          \<and> Verse (Slokas allSlokas ! j) = verseFlag flags)" for i
  proof -
    have "findSloka (Slokas allSlokas) (chapterFlag flags) (verseFlag flags)
            = Some (Slokas allSlokas ! i)"
      using that by (rule findSloka_first)
    then have sel: "selectSloka flags env allSlokas = Inr (Slokas allSlokas ! i)"
      using assms(1,2) by (simp add: selectSloka_def)
    have mm: "main flags env =
                 [ReadFile ''gita.json'', Unmarshal]
                   @ present flags allSlokas (Slokas allSlokas ! i) @ [Exit 0]"
      by (simp add: m sel)
    have hd: "verseHeader (Slokas allSlokas ! i) =
                 Bold @ ''Chapter '' @ formatInt (chapterFlag flags) @ '', Verse ''
                   @ formatInt (verseFlag flags) @ Reset @ [CHR 0x0A, CHR 0x0A]"
      using that(2) by (simp add: verseHeader_def)
    have "Write Stdout (verseHeader (Slokas allSlokas ! i)) \<in> set (main flags env)"
      unfolding mm using header_in_present [of "Slokas allSlokas ! i" flags allSlokas] by simp
    then show ?thesis using sel mm hd by blast
  qed
  show ?thesis using none some by blast
qed

lemma ex_loaded:
  "gitaFS_ReadFile ex_env ''gita.json'' = Inr ''{}''" "json_Unmarshal ex_env ''{}'' = Inr ex_corpus"
  by (simp_all add: ex_env_def)

lemma formatInt_examples: "formatInt 2 = ''2''" "formatInt 47 = ''47''" "formatInt 3 = ''3''" "formatInt 1 = ''1''"
  by code_simp+

text \<open>
  On the example corpus: \<^verbatim>\<open>-c 3 -v 1\<close> finds nothing; \<^verbatim>\<open>-c 2 -v 47\<close> selects the first of
  the two verses with these numbers and prints the header \<^verbatim>\<open>Chapter 2, Verse 47\<close>.
\<close>

theorem exact_lookup_witness:
  "main (defaultFlags\<lparr>chapterFlag := 3, verseFlag := 1\<rparr>) ex_env =
     [ReadFile ''gita.json'', Unmarshal,
      Write Stdout (''Chapter 3, Verse 1 not found.'' @ [CHR 0x0A]), Exit 1]
   \<and> selectSloka (defaultFlags\<lparr>chapterFlag := 2, verseFlag := 47\<rparr>) ex_env ex_corpus
        = Inr ex_sloka
   \<and> Write Stdout (Bold @ ''Chapter 2, Verse 47'' @ Reset @ [CHR 0x0A, CHR 0x0A])
        \<in> set (main (defaultFlags\<lparr>chapterFlag := 2, verseFlag := 47\<rparr>) ex_env)"
proof -
  let ?f1 = "defaultFlags\<lparr>chapterFlag := 3, verseFlag := 1\<rparr>"
  let ?f2 = "defaultFlags\<lparr>chapterFlag := 2, verseFlag := 47\<rparr>"
  have src: "translationSource ?f1 \<in> set validSources" "translationSource ?f2 \<in> set validSources"
    by (simp_all add: defaultFlags_def validSources_set)
  have t1: "0 < chapterFlag ?f1" "0 < verseFlag ?f1" by simp_all
  have t2: "0 < chapterFlag ?f2" "0 < verseFlag ?f2" by simp_all
  note a = exact_lookup [OF t1 src(1) ex_loaded, THEN conjunct1]
  have c: "Slokas ex_corpus ! 1 = ex_sloka" "length (Slokas ex_corpus) = 3"
    "Sloka_Chapter (Slokas ex_corpus ! 0) = 1"
    by (simp_all add: ex_corpus_def)
  have k: "Sloka_Chapter ex_sloka = 2" "Verse ex_sloka = 47"
    by (simp_all add: ex_sloka_def)
  have no31: "\<forall>s \<in> set (Slokas ex_corpus). \<not> (Sloka_Chapter s = 3 \<and> Verse s = 1)"
    by (simp add: ex_corpus_def k)
  have first: "main ?f1 ex_env =
     [ReadFile ''gita.json'', Unmarshal,
      Write Stdout (''Chapter 3, Verse 1 not found.'' @ [CHR 0x0A]), Exit 1]"
    using a no31 by (simp add: formatInt_examples)
  have len: "1 < length (Slokas ex_corpus)" using c by simp
  have prem: "Sloka_Chapter (Slokas ex_corpus ! 1) = chapterFlag ?f2
      \<and> Verse (Slokas ex_corpus ! 1) = verseFlag ?f2
      \<and> (\<forall>j < 1. \<not> (Sloka_Chapter (Slokas ex_corpus ! j) = chapterFlag ?f2
                      \<and> Verse (Slokas ex_corpus ! j) = verseFlag ?f2))"
    using c k by simp
  note b = exact_lookup [OF t2 src(2) ex_loaded, THEN conjunct2, rule_format, OF len prem]
  from b have sel: "selectSloka ?f2 ex_env ex_corpus = Inr ex_sloka"
    unfolding c(1) by blast
  from b have mem: "Write Stdout (verseHeader ex_sloka) \<in> set (main ?f2 ex_env)"
    unfolding c(1) by blast
  from b have "verseHeader ex_sloka =
      Bold @ ''Chapter '' @ formatInt (chapterFlag ?f2) @ '', Verse ''
        @ formatInt (verseFlag ?f2) @ Reset @ [CHR 0x0A, CHR 0x0A]"
    unfolding c(1) by blast
  then have hd: "verseHeader ex_sloka = Bold @ ''Chapter 2, Verse 47'' @ Reset @ [CHR 0x0A, CHR 0x0A]"
    by (simp add: formatInt_examples)
  have "Write Stdout (Bold @ ''Chapter 2, Verse 47'' @ Reset @ [CHR 0x0A, CHR 0x0A])
        \<in> set (main ?f2 ex_env)"
    using mem unfolding hd .
  with first sel show ?thesis by blast
qed

lemma selectSloka_random:
  "\<not> (0 < chapterFlag flags \<and> 0 < verseFlag flags) \<Longrightarrow>
     selectSloka flags env allSlokas =
       (if length (Slokas allSlokas) = 0 then
          Inl [Write Stdout (''No slokas found in the JSON data.'' @ [CHR 0x0A]), Exit 1]
        else if rand_Intn env (length (Slokas allSlokas)) < length (Slokas allSlokas)
        then Inr (Slokas allSlokas ! rand_Intn env (length (Slokas allSlokas)))
        else Inl [Panic])"
  by (auto simp: selectSloka_def Let_def)

lemma present_flags:
  "present (flags\<lparr>chapterFlag := c, verseFlag := v\<rparr>) allSlokas s = present flags allSlokas s"
  by (simp add: present_def)

text \<open>
  Claim C2. When the two flags are not both positive (with a valid translation source
  and a dataset that loads) the run is the run with both flags at 0, their default.
  With no verse in the corpus it prints the message of line 182 and exits with status
  1. Otherwise the verse selected is the one at the index that \<^verbatim>\<open>rand.Intn\<close> returns
  for the number of verses (the index is the draw itself, so it is distributed as the
  library's draw is): it is a verse of the corpus, the run prints it and ends with
  status 0, and the header printed reads \<^verbatim>\<open>Chapter c, Verse v\<close> for the chapter and verse
  number of that verse.
\<close>

theorem random_fallback:
  assumes "\<not> (0 < chapterFlag flags \<and> 0 < verseFlag flags)"
    and "translationSource flags \<in> set validSources"
    and "gitaFS_ReadFile env ''gita.json'' = Inr data"
    and "json_Unmarshal env data = Inr allSlokas"
  shows
    "main flags env = main (flags\<lparr>chapterFlag := 0, verseFlag := 0\<rparr>) env
     \<and> (Slokas allSlokas = [] \<longrightarrow>
          main flags env =
            [ReadFile ''gita.json'', Unmarshal,
             Write Stdout (''No slokas found in the JSON data.'' @ [CHR 0x0A]), Exit 1])
     \<and> (Slokas allSlokas \<noteq> []
          \<and> rand_Intn env (length (Slokas allSlokas)) < length (Slokas allSlokas) \<longrightarrow>
          selectSloka flags env allSlokas
            = Inr (Slokas allSlokas ! rand_Intn env (length (Slokas allSlokas)))
          \<and> Slokas allSlokas ! rand_Intn env (length (Slokas allSlokas)) \<in> set (Slokas allSlokas)
          \<and> main flags env =
               [ReadFile ''gita.json'', Unmarshal]
                 @ present flags allSlokas
                     (Slokas allSlokas ! rand_Intn env (length (Slokas allSlokas)))
                 @ [Exit 0]
          \<and> Write Stdout
               (verseHeader (Slokas allSlokas ! rand_Intn env (length (Slokas allSlokas))))
               \<in> set (main flags env)
          \<and> verseHeader (Slokas allSlokas ! rand_Intn env (length (Slokas allSlokas))) =
               Bold @ ''Chapter ''
                 @ formatInt
                     (Sloka_Chapter (Slokas allSlokas ! rand_Intn env (length (Slokas allSlokas))))
                 @ '', Verse ''
                 @ formatInt (Verse (Slokas allSlokas ! rand_Intn env (length (Slokas allSlokas))))
                 @ Reset @ [CHR 0x0A, CHR 0x0A]
          \<and> Write Stdout
               (Bold @ ''Chapter ''
                  @ formatInt
                      (Sloka_Chapter (Slokas allSlokas ! rand_Intn env (length (Slokas allSlokas))))
                  @ '', Verse ''
                  @ formatInt (Verse (Slokas allSlokas ! rand_Intn env (length (Slokas allSlokas))))
                  @ Reset @ [CHR 0x0A, CHR 0x0A])
               \<in> set (main flags env))"
proof -
  let ?flags0 = "flags\<lparr>chapterFlag := 0, verseFlag := 0\<rparr>"
  let ?n = "length (Slokas allSlokas)"
  have v: "validSourceLoop validSources (translationSource flags)"
    using assms(2) by (simp add: validSourceLoop_set)
  then have v0: "validSourceLoop validSources (translationSource ?flags0)" by simp
  note m = main_loaded [OF v assms(3) assms(4)]
  note m0 = main_loaded [OF v0 assms(3) assms(4)]
  note sel = selectSloka_random [OF assms(1), of env allSlokas]
  have sel0: "selectSloka ?flags0 env allSlokas = selectSloka flags env allSlokas"
    by (simp add: sel selectSloka_random)
  have same: "main flags env = main ?flags0 env"
    unfolding m m0 sel0 by (simp add: present_flags split: sum.splits)
  have empty: "main flags env =
            [ReadFile ''gita.json'', Unmarshal,
             Write Stdout (''No slokas found in the JSON data.'' @ [CHR 0x0A]), Exit 1]"
    if "Slokas allSlokas = []"
    using that by (simp add: m sel)
  have drawn: "selectSloka flags env allSlokas = Inr (Slokas allSlokas ! rand_Intn env ?n)
          \<and> Slokas allSlokas ! rand_Intn env ?n \<in> set (Slokas allSlokas)
          \<and> main flags env =
               [ReadFile ''gita.json'', Unmarshal]
                 @ present flags allSlokas (Slokas allSlokas ! rand_Intn env ?n) @ [Exit 0]
          \<and> Write Stdout (verseHeader (Slokas allSlokas ! rand_Intn env ?n))
               \<in> set (main flags env)
          \<and> verseHeader (Slokas allSlokas ! rand_Intn env ?n) =
               Bold @ ''Chapter '' @ formatInt (Sloka_Chapter (Slokas allSlokas ! rand_Intn env ?n))
                 @ '', Verse '' @ formatInt (Verse (Slokas allSlokas ! rand_Intn env ?n))
                 @ Reset @ [CHR 0x0A, CHR 0x0A]
          \<and> Write Stdout
               (Bold @ ''Chapter '' @ formatInt (Sloka_Chapter (Slokas allSlokas ! rand_Intn env ?n))
                  @ '', Verse '' @ formatInt (Verse (Slokas allSlokas ! rand_Intn env ?n))
                  @ Reset @ [CHR 0x0A, CHR 0x0A])
               \<in> set (main flags env)"
    if "Slokas allSlokas \<noteq> [] \<and> rand_Intn env ?n < ?n"
  proof -
    have s: "selectSloka flags env allSlokas = Inr (Slokas allSlokas ! rand_Intn env ?n)"
      using that by (simp add: sel)
    have mm: "main flags env =
               [ReadFile ''gita.json'', Unmarshal]
                 @ present flags allSlokas (Slokas allSlokas ! rand_Intn env ?n) @ [Exit 0]"
      by (simp add: m s)
    have mem: "Write Stdout (verseHeader (Slokas allSlokas ! rand_Intn env ?n))
        \<in> set (main flags env)"
      unfolding mm
      using header_in_present [of "Slokas allSlokas ! rand_Intn env ?n" flags allSlokas] by simp
    have reads: "verseHeader (Slokas allSlokas ! rand_Intn env ?n) =
               Bold @ ''Chapter '' @ formatInt (Sloka_Chapter (Slokas allSlokas ! rand_Intn env ?n))
                 @ '', Verse '' @ formatInt (Verse (Slokas allSlokas ! rand_Intn env ?n))
                 @ Reset @ [CHR 0x0A, CHR 0x0A]"
      by (simp add: verseHeader_def)
    have mem': "Write Stdout
               (Bold @ ''Chapter '' @ formatInt (Sloka_Chapter (Slokas allSlokas ! rand_Intn env ?n))
                  @ '', Verse '' @ formatInt (Verse (Slokas allSlokas ! rand_Intn env ?n))
                  @ Reset @ [CHR 0x0A, CHR 0x0A])
               \<in> set (main flags env)"
      using mem unfolding reads .
    have inset: "Slokas allSlokas ! rand_Intn env ?n \<in> set (Slokas allSlokas)"
      using that by simp
    show ?thesis using s inset mm mem reads mem' by blast
  qed
  show ?thesis using same empty drawn by blast
qed

lemma ex_valid: "translationSource (defaultFlags\<lparr>chapterFlag := c, verseFlag := v, includeChapter := b\<rparr>) \<in> set validSources"
  by (simp add: defaultFlags_def validSources_set)

lemma ex_header: "verseHeader ex_sloka = Bold @ ''Chapter 2, Verse 47'' @ Reset @ [CHR 0x0A, CHR 0x0A]"
  by (simp add: verseHeader_def ex_sloka_def formatInt_examples)

text \<open>
  On the example corpus \<^verbatim>\<open>-c 5\<close> alone runs as no flag does; the draw is index 2, the
  last verse, and the header reads \<^verbatim>\<open>Chapter 2, Verse 47\<close>. When the draw is index 0 the
  header reads \<^verbatim>\<open>Chapter 1, Verse 1\<close>. On the corpus with no verse \<^verbatim>\<open>-v -1\<close> ends with
  status 1.
\<close>

theorem random_fallback_witness:
  "main (defaultFlags\<lparr>chapterFlag := 5\<rparr>) ex_env = main defaultFlags ex_env
   \<and> selectSloka (defaultFlags\<lparr>chapterFlag := 5\<rparr>) ex_env ex_corpus
        = Inr (ex_sloka\<lparr>ID := ''again''\<rparr>)
   \<and> ex_sloka\<lparr>ID := ''again''\<rparr> \<in> set (Slokas ex_corpus)
   \<and> Write Stdout (Bold @ ''Chapter 2, Verse 47'' @ Reset @ [CHR 0x0A, CHR 0x0A])
        \<in> set (main (defaultFlags\<lparr>chapterFlag := 5\<rparr>) ex_env)
   \<and> Write Stdout (Bold @ ''Chapter 1, Verse 1'' @ Reset @ [CHR 0x0A, CHR 0x0A])
        \<in> set (main defaultFlags ex_env_first)
   \<and> main (defaultFlags\<lparr>verseFlag := - 1\<rparr>) ex_env_empty =
        [ReadFile ''gita.json'', Unmarshal,
         Write Stdout (''No slokas found in the JSON data.'' @ [CHR 0x0A]), Exit 1]"
proof -
  let ?f = "defaultFlags\<lparr>chapterFlag := 5\<rparr>"
  let ?g = "defaultFlags\<lparr>verseFlag := - 1\<rparr>"
  let ?e = "\<lparr>Chapters = [], Slokas = []\<rparr> :: AllSlokas"
  let ?last = "ex_sloka\<lparr>ID := ''again''\<rparr>"
  let ?first = "ex_sloka\<lparr>ID := ''BG1.1'', Sloka_Chapter := 1, Verse := 1\<rparr>"
  have hf: "\<not> (0 < chapterFlag ?f \<and> 0 < verseFlag ?f)" by (simp add: defaultFlags_def)
  have hg: "\<not> (0 < chapterFlag ?g \<and> 0 < verseFlag ?g)" by (simp add: defaultFlags_def)
  have hd: "\<not> (0 < chapterFlag defaultFlags \<and> 0 < verseFlag defaultFlags)"
    by (simp add: defaultFlags_def)
  have vf: "translationSource ?f \<in> set validSources" "translationSource ?g \<in> set validSources"
    "translationSource defaultFlags \<in> set validSources"
    by (simp_all add: defaultFlags_def validSources_set)
  have le: "gitaFS_ReadFile ex_env_empty ''gita.json'' = Inr ''{}''"
    "json_Unmarshal ex_env_empty ''{}'' = Inr ?e"
    by (simp_all add: ex_env_empty_def ex_env_def)
  have lf: "gitaFS_ReadFile ex_env_first ''gita.json'' = Inr ''{}''"
    "json_Unmarshal ex_env_first ''{}'' = Inr ex_corpus"
    by (simp_all add: ex_env_first_def ex_env_def)
  note a = random_fallback [OF hf vf(1) ex_loaded]
  note b = random_fallback [OF hg vf(2) le]
  note c = random_fallback [OF hd vf(3) lf]
  have ne: "Slokas ex_corpus \<noteq> []" by (simp add: ex_corpus_def)
  have prem: "Slokas ex_corpus \<noteq> []
      \<and> rand_Intn ex_env (length (Slokas ex_corpus)) < length (Slokas ex_corpus)"
    by (simp add: ex_env_def ex_corpus_def)
  have idx: "Slokas ex_corpus ! rand_Intn ex_env (length (Slokas ex_corpus)) = ?last"
    by (simp add: ex_env_def ex_corpus_def)
  have prem0: "Slokas ex_corpus \<noteq> []
      \<and> rand_Intn ex_env_first (length (Slokas ex_corpus)) < length (Slokas ex_corpus)"
    by (simp add: ex_env_first_def ex_env_def ex_corpus_def)
  have idx0: "Slokas ex_corpus ! rand_Intn ex_env_first (length (Slokas ex_corpus)) = ?first"
    by (simp add: ex_env_first_def ex_env_def ex_corpus_def)
  have z: "?f\<lparr>chapterFlag := 0, verseFlag := 0\<rparr> = defaultFlags" by (simp add: defaultFlags_def)
  have nums: "formatInt (Sloka_Chapter ?last) = ''2''" "formatInt (Verse ?last) = ''47''"
    "formatInt (Sloka_Chapter ?first) = ''1''" "formatInt (Verse ?first) = ''1''"
    by (simp_all add: ex_sloka_def formatInt_examples)
  from a have same: "main ?f ex_env = main defaultFlags ex_env" unfolding z by blast
  from a prem have sel: "selectSloka ?f ex_env ex_corpus = Inr ?last"
    and inset: "?last \<in> set (Slokas ex_corpus)"
    and shown: "Write Stdout
           (Bold @ ''Chapter '' @ formatInt (Sloka_Chapter ?last) @ '', Verse ''
              @ formatInt (Verse ?last) @ Reset @ [CHR 0x0A, CHR 0x0A])
           \<in> set (main ?f ex_env)"
    unfolding idx by blast+
  from c prem0 have shown0: "Write Stdout
           (Bold @ ''Chapter '' @ formatInt (Sloka_Chapter ?first) @ '', Verse ''
              @ formatInt (Verse ?first) @ Reset @ [CHR 0x0A, CHR 0x0A])
           \<in> set (main defaultFlags ex_env_first)"
    unfolding idx0 by blast
  have h247: "Write Stdout (Bold @ ''Chapter 2, Verse 47'' @ Reset @ [CHR 0x0A, CHR 0x0A])
        \<in> set (main ?f ex_env)"
    using shown unfolding nums by simp
  have h11: "Write Stdout (Bold @ ''Chapter 1, Verse 1'' @ Reset @ [CHR 0x0A, CHR 0x0A])
        \<in> set (main defaultFlags ex_env_first)"
    using shown0 unfolding nums by simp
  have none: "main ?g ex_env_empty =
        [ReadFile ''gita.json'', Unmarshal,
         Write Stdout (''No slokas found in the JSON data.'' @ [CHR 0x0A]), Exit 1]"
  proof -
    have "Slokas ?e = []" by simp
    with b show ?thesis by blast
  qed
  show ?thesis
    by (intro conjI same sel inset h247 h11 none)
qed

text \<open>
  Claim C6. For a translation source that is none of the six names, the run is the
  two lines of the usage message and \<^verbatim>\<open>os.Exit(1)\<close>: the embedded file is not read, the
  parser is not called, nothing of a verse is printed, and the run is the same
  whatever the dataset is.
\<close>

theorem invalid_source_rejected:
  assumes "translationSource flags
             \<notin> {''siva'', ''purohit'', ''adi'', ''san'', ''tej'', ''chinmay''}"
  shows
    "main flags env =
       [Write Stdout (''Invalid translation source: '' @ translationSource flags @ [CHR 0x0A]),
        Write Stdout (''Valid sources: siva, purohit, adi, san, tej, chinmay'' @ [CHR 0x0A]),
        Exit 1]
     \<and> ReadFile ''gita.json'' \<notin> set (main flags env)
     \<and> Unmarshal \<notin> set (main flags env)
     \<and> (\<forall>env'. main flags env' = main flags env)"
proof -
  have "\<not> validSourceLoop validSources (translationSource flags)"
    using assms by (simp add: validSourceLoop_set validSources_set)
  then show ?thesis by (simp add: main_def)
qed

text \<open>
  The names are compared as they are: \<^verbatim>\<open>Siva\<close> with a capital letter is rejected.
\<close>

theorem invalid_source_rejected_witness:
  "main (defaultFlags\<lparr>translationSource := ''Siva''\<rparr>) ex_env =
     [Write Stdout (''Invalid translation source: Siva'' @ [CHR 0x0A]),
      Write Stdout (''Valid sources: siva, purohit, adi, san, tej, chinmay'' @ [CHR 0x0A]),
      Exit 1]
   \<and> ReadFile ''gita.json'' \<notin> set (main (defaultFlags\<lparr>translationSource := ''Siva''\<rparr>) ex_env)
   \<and> Unmarshal \<notin> set (main (defaultFlags\<lparr>translationSource := ''Siva''\<rparr>) ex_env)"
proof -
  have "translationSource (defaultFlags\<lparr>translationSource := ''Siva''\<rparr>)
          \<notin> {''siva'', ''purohit'', ''adi'', ''san'', ''tej'', ''chinmay''}"
    by simp
  from invalid_source_rejected [OF this, of ex_env] show ?thesis by simp
qed

lemma chapterInfo_Stdout: "e \<in> set (chapterInfo chs n) \<Longrightarrow> \<exists>s. e = Write Stdout s"
  by (induction chs) (auto split: if_splits)

lemma printLines_Stdout: "e \<in> set (printLines ls) \<Longrightarrow> \<exists>s. e = Write Stdout s"
  by (induction ls) (auto split: if_splits)

lemma present_Stdout: "e \<in> set (present flags allSlokas s) \<Longrightarrow> \<exists>s. e = Write Stdout s"
  by (auto simp: present_def split: if_splits prod.splits dest: chapterInfo_Stdout printLines_Stdout)

lemma selectSloka_Stdout:
  "selectSloka flags env allSlokas = Inl es \<Longrightarrow> e \<in> set es \<Longrightarrow> \<forall>s. e \<noteq> Write Stderr s"
  by (auto simp: selectSloka_def Let_def split: if_splits option.splits)

lemma main_no_Stderr: "e \<in> set (main flags env) \<Longrightarrow> \<forall>s. e \<noteq> Write Stderr s"
  by (auto simp: main_def split: if_splits sum.splits
        dest: present_Stdout selectSloka_Stdout)

lemma written_none: "\<forall>e \<in> set es. \<forall>s. e \<noteq> Write st s \<Longrightarrow> written st es = []"
  by (induction st es rule: written.induct) auto

text \<open>
  Claim C7, as the code has it. Every message of the program is printed with
  \<^verbatim>\<open>fmt.Printf\<close> or \<^verbatim>\<open>fmt.Println\<close>, so it goes to the standard output: nothing is ever
  written to the standard error stream. Each of the five kinds of error (translation
  source not valid, embedded file not readable, dataset not parsed, corpus without a
  verse, verse not found) prints one message (two lines for the first kind) and ends
  the process with status 1 at once: the run has no effect after \<^verbatim>\<open>os.Exit(1)\<close>, and
  the file is read and parsed at most once.
\<close>

theorem error_reporting:
  "written Stderr (main flags env) = []
   \<and> (translationSource flags \<notin> set validSources \<longrightarrow>
        main flags env =
          [Write Stdout (''Invalid translation source: '' @ translationSource flags @ [CHR 0x0A]),
           Write Stdout (''Valid sources: siva, purohit, adi, san, tej, chinmay'' @ [CHR 0x0A]),
           Exit 1])
   \<and> (translationSource flags \<in> set validSources
        \<and> gitaFS_ReadFile env ''gita.json'' = Inl err \<longrightarrow>
        main flags env =
          [ReadFile ''gita.json'',
           Write Stdout (''Error reading embedded data: '' @ err @ [CHR 0x0A]), Exit 1])
   \<and> (translationSource flags \<in> set validSources
        \<and> gitaFS_ReadFile env ''gita.json'' = Inr data
        \<and> json_Unmarshal env data = Inl err \<longrightarrow>
        main flags env =
          [ReadFile ''gita.json'', Unmarshal,
           Write Stdout (''Error parsing JSON: '' @ err @ [CHR 0x0A]), Exit 1])
   \<and> (translationSource flags \<in> set validSources
        \<and> gitaFS_ReadFile env ''gita.json'' = Inr data
        \<and> json_Unmarshal env data = Inr allSlokas
        \<and> \<not> (0 < chapterFlag flags \<and> 0 < verseFlag flags)
        \<and> Slokas allSlokas = [] \<longrightarrow>
        main flags env =
          [ReadFile ''gita.json'', Unmarshal,
           Write Stdout (''No slokas found in the JSON data.'' @ [CHR 0x0A]), Exit 1])
   \<and> (translationSource flags \<in> set validSources
        \<and> gitaFS_ReadFile env ''gita.json'' = Inr data
        \<and> json_Unmarshal env data = Inr allSlokas
        \<and> 0 < chapterFlag flags \<and> 0 < verseFlag flags
        \<and> (\<forall>s \<in> set (Slokas allSlokas).
              \<not> (Sloka_Chapter s = chapterFlag flags \<and> Verse s = verseFlag flags)) \<longrightarrow>
        main flags env =
          [ReadFile ''gita.json'', Unmarshal,
           Write Stdout (''Chapter '' @ formatInt (chapterFlag flags) @ '', Verse ''
              @ formatInt (verseFlag flags) @ '' not found.'' @ [CHR 0x0A]),
           Exit 1])"
proof -
  have a: "written Stderr (main flags env) = []"
    using main_no_Stderr [of _ flags env] by (intro written_none) blast
  have b: "translationSource flags \<notin> set validSources \<longrightarrow>
        main flags env =
          [Write Stdout (''Invalid translation source: '' @ translationSource flags @ [CHR 0x0A]),
           Write Stdout (''Valid sources: siva, purohit, adi, san, tej, chinmay'' @ [CHR 0x0A]),
           Exit 1]"
    by (simp add: main_def validSourceLoop_set)
  have c: "translationSource flags \<in> set validSources
        \<and> gitaFS_ReadFile env ''gita.json'' = Inl err \<longrightarrow>
        main flags env =
          [ReadFile ''gita.json'',
           Write Stdout (''Error reading embedded data: '' @ err @ [CHR 0x0A]), Exit 1]"
    by (simp add: main_def validSourceLoop_set)
  have d: "translationSource flags \<in> set validSources
        \<and> gitaFS_ReadFile env ''gita.json'' = Inr data
        \<and> json_Unmarshal env data = Inl err \<longrightarrow>
        main flags env =
          [ReadFile ''gita.json'', Unmarshal,
           Write Stdout (''Error parsing JSON: '' @ err @ [CHR 0x0A]), Exit 1]"
    by (simp add: main_def validSourceLoop_set)
  have e: "translationSource flags \<in> set validSources
        \<and> gitaFS_ReadFile env ''gita.json'' = Inr data
        \<and> json_Unmarshal env data = Inr allSlokas
        \<and> \<not> (0 < chapterFlag flags \<and> 0 < verseFlag flags)
        \<and> Slokas allSlokas = [] \<longrightarrow>
        main flags env =
          [ReadFile ''gita.json'', Unmarshal,
           Write Stdout (''No slokas found in the JSON data.'' @ [CHR 0x0A]), Exit 1]"
    by (auto simp: main_def validSourceLoop_set selectSloka_def)
  have f: "translationSource flags \<in> set validSources
        \<and> gitaFS_ReadFile env ''gita.json'' = Inr data
        \<and> json_Unmarshal env data = Inr allSlokas
        \<and> 0 < chapterFlag flags \<and> 0 < verseFlag flags
        \<and> (\<forall>s \<in> set (Slokas allSlokas).
              \<not> (Sloka_Chapter s = chapterFlag flags \<and> Verse s = verseFlag flags)) \<longrightarrow>
        main flags env =
          [ReadFile ''gita.json'', Unmarshal,
           Write Stdout (''Chapter '' @ formatInt (chapterFlag flags) @ '', Verse ''
              @ formatInt (verseFlag flags) @ '' not found.'' @ [CHR 0x0A]),
           Exit 1]"
  proof (intro impI, elim conjE)
    assume h: "translationSource flags \<in> set validSources"
      "gitaFS_ReadFile env ''gita.json'' = Inr data" "json_Unmarshal env data = Inr allSlokas"
      "0 < chapterFlag flags" "0 < verseFlag flags"
      "\<forall>s \<in> set (Slokas allSlokas).
              \<not> (Sloka_Chapter s = chapterFlag flags \<and> Verse s = verseFlag flags)"
    have "findSloka (Slokas allSlokas) (chapterFlag flags) (verseFlag flags) = None"
      using h(6) by (simp add: findSloka_None)
    then show "main flags env =
          [ReadFile ''gita.json'', Unmarshal,
           Write Stdout (''Chapter '' @ formatInt (chapterFlag flags) @ '', Verse ''
              @ formatInt (verseFlag flags) @ '' not found.'' @ [CHR 0x0A]),
           Exit 1]"
      using h(1-5) by (simp add: main_def validSourceLoop_set selectSloka_def)
  qed
  show ?thesis using a b c d e f by blast
qed

text \<open>
  The claim as the specification words it fails: for the translation source
  \<^verbatim>\<open>gandhi\<close> the standard error stream stays empty, and the message is on the
  standard output.
\<close>

theorem error_reporting_counterexample:
  "written Stderr (main (defaultFlags\<lparr>translationSource := ''gandhi''\<rparr>) ex_env) = []
   \<and> written Stdout (main (defaultFlags\<lparr>translationSource := ''gandhi''\<rparr>) ex_env) =
        ''Invalid translation source: gandhi'' @ [CHR 0x0A]
          @ ''Valid sources: siva, purohit, adi, san, tej, chinmay'' @ [CHR 0x0A]
   \<and> last (main (defaultFlags\<lparr>translationSource := ''gandhi''\<rparr>) ex_env) = Exit 1"
  by (simp add: main_def validSourceLoop_set validSources_set)

text \<open>
  The five kinds of error, each in an environment that produces it.
\<close>

theorem error_reporting_witness:
  "main (defaultFlags\<lparr>translationSource := ''gandhi''\<rparr>) ex_env =
     [Write Stdout (''Invalid translation source: gandhi'' @ [CHR 0x0A]),
      Write Stdout (''Valid sources: siva, purohit, adi, san, tej, chinmay'' @ [CHR 0x0A]),
      Exit 1]
   \<and> main defaultFlags ex_env_unreadable =
       [ReadFile ''gita.json'',
        Write Stdout (''Error reading embedded data: file does not exist'' @ [CHR 0x0A]), Exit 1]
   \<and> main defaultFlags ex_env_malformed =
       [ReadFile ''gita.json'', Unmarshal,
        Write Stdout (''Error parsing JSON: unexpected end of JSON input'' @ [CHR 0x0A]), Exit 1]
   \<and> main defaultFlags ex_env_empty =
       [ReadFile ''gita.json'', Unmarshal,
        Write Stdout (''No slokas found in the JSON data.'' @ [CHR 0x0A]), Exit 1]
   \<and> main (defaultFlags\<lparr>chapterFlag := 3, verseFlag := 1\<rparr>) ex_env =
       [ReadFile ''gita.json'', Unmarshal,
        Write Stdout (''Chapter 3, Verse 1 not found.'' @ [CHR 0x0A]), Exit 1]"
proof -
  let ?e = "\<lparr>Chapters = [], Slokas = []\<rparr> :: AllSlokas"
  have v: "translationSource defaultFlags \<in> set validSources"
    "translationSource (defaultFlags\<lparr>chapterFlag := 3, verseFlag := 1\<rparr>) \<in> set validSources"
    "translationSource (defaultFlags\<lparr>translationSource := ''gandhi''\<rparr>) \<notin> set validSources"
    by (simp_all add: defaultFlags_def validSources_set)
  have k: "Sloka_Chapter ex_sloka = 2" "Verse ex_sloka = 47"
    by (simp_all add: ex_sloka_def)
  have no31: "\<forall>s \<in> set (Slokas ex_corpus). \<not> (Sloka_Chapter s = 3 \<and> Verse s = 1)"
    by (simp add: ex_corpus_def k)
  have f: "chapterFlag defaultFlags = 0" "verseFlag defaultFlags = 0" by (simp_all add: defaultFlags_def)
  have "main (defaultFlags\<lparr>translationSource := ''gandhi''\<rparr>) ex_env =
     [Write Stdout (''Invalid translation source: gandhi'' @ [CHR 0x0A]),
      Write Stdout (''Valid sources: siva, purohit, adi, san, tej, chinmay'' @ [CHR 0x0A]),
      Exit 1]"
    using error_reporting [where flags = "defaultFlags\<lparr>translationSource := ''gandhi''\<rparr>"
        and env = ex_env] v(3)
    by simp
  moreover have "main defaultFlags ex_env_unreadable =
       [ReadFile ''gita.json'',
        Write Stdout (''Error reading embedded data: file does not exist'' @ [CHR 0x0A]), Exit 1]"
    using error_reporting [where flags = defaultFlags and env = ex_env_unreadable
        and err = "''file does not exist''"] v(1)
    by (simp add: ex_env_unreadable_def)
  moreover have "main defaultFlags ex_env_malformed =
       [ReadFile ''gita.json'', Unmarshal,
        Write Stdout (''Error parsing JSON: unexpected end of JSON input'' @ [CHR 0x0A]), Exit 1]"
    using error_reporting [where flags = defaultFlags and env = ex_env_malformed
        and data = "''{}''" and err = "''unexpected end of JSON input''"] v(1)
    by (simp add: ex_env_malformed_def ex_env_def)
  moreover have "main defaultFlags ex_env_empty =
       [ReadFile ''gita.json'', Unmarshal,
        Write Stdout (''No slokas found in the JSON data.'' @ [CHR 0x0A]), Exit 1]"
    using error_reporting [where flags = defaultFlags and env = ex_env_empty
        and data = "''{}''" and allSlokas = ?e] v(1) f
    by (simp add: ex_env_empty_def ex_env_def)
  moreover have "main (defaultFlags\<lparr>chapterFlag := 3, verseFlag := 1\<rparr>) ex_env =
       [ReadFile ''gita.json'', Unmarshal,
        Write Stdout (''Chapter 3, Verse 1 not found.'' @ [CHR 0x0A]), Exit 1]"
    using error_reporting [where flags = "defaultFlags\<lparr>chapterFlag := 3, verseFlag := 1\<rparr>"
        and env = ex_env and data = "''{}''" and allSlokas = ex_corpus]
      v(2) no31 ex_loaded
    by (simp add: formatInt_examples)
  ultimately show ?thesis by blast
qed

lemma pickTranslation_table:
  "pickTranslation ''siva'' s = (Siva_Et (Sloka_Siva s), Siva_Author (Sloka_Siva s))"
  "pickTranslation ''purohit'' s = (Purohit_Et (Sloka_Purohit s), Purohit_Author (Sloka_Purohit s))"
  "pickTranslation ''adi'' s = (Adi_Et (Sloka_Adi s), Adi_Author (Sloka_Adi s))"
  "pickTranslation ''san'' s = (San_Et (Sloka_San s), San_Author (Sloka_San s))"
  "pickTranslation ''tej'' s = (Tej_Ht (Sloka_Tej s), Tej_Author (Sloka_Tej s))"
  "pickTranslation ''chinmay'' s = (Chinmay_Hc (Sloka_Chinmay s), Chinmay_Author (Sloka_Chinmay s))"
  by (simp_all add: pickTranslation_def Siva_def Purohit_def Adi_def San_def Tej_def Chinmay_def)

lemma present_tail:
  "\<exists>front. present flags allSlokas s =
     front @
     [Write Stdout (wrapText (fst (pickTranslation (translationSource flags) s)) @ [CHR 0x0A]),
      Write Stdout (Dim @ ''('' @ snd (pickTranslation (translationSource flags) s) @ '')''
         @ Reset @ [CHR 0x0A]),
      Write Stdout [CHR 0x0A]]"
  by (simp add: present_def split: prod.splits)

text \<open>
  Claim C8. The flag \<^verbatim>\<open>-translation\<close> defaults to \<^verbatim>\<open>siva\<close>. The \<^verbatim>\<open>switch\<close> picks the
  \<^verbatim>\<open>et\<close> field and the author of \<^verbatim>\<open>siva\<close>, \<^verbatim>\<open>purohit\<close>, \<^verbatim>\<open>adi\<close> and \<^verbatim>\<open>san\<close>, \<^verbatim>\<open>ht\<close> for
  \<^verbatim>\<open>tej\<close> and \<^verbatim>\<open>hc\<close> for \<^verbatim>\<open>chinmay\<close>; with the default source it is the text and the
  author of \<^verbatim>\<open>siva\<close>. For a valid source and the verse selected, the run ends with the
  text picked, wrapped for the display (line 252: its words, all of them and in their
  order), then the author picked, as it is, dim and in parentheses, then an empty
  line.
\<close>

theorem translator_dispatch:
  "translationSource defaultFlags = ''siva''
   \<and> pickTranslation ''siva'' s = (Siva_Et (Sloka_Siva s), Siva_Author (Sloka_Siva s))
   \<and> pickTranslation ''purohit'' s
        = (Purohit_Et (Sloka_Purohit s), Purohit_Author (Sloka_Purohit s))
   \<and> pickTranslation ''adi'' s = (Adi_Et (Sloka_Adi s), Adi_Author (Sloka_Adi s))
   \<and> pickTranslation ''san'' s = (San_Et (Sloka_San s), San_Author (Sloka_San s))
   \<and> pickTranslation ''tej'' s = (Tej_Ht (Sloka_Tej s), Tej_Author (Sloka_Tej s))
   \<and> pickTranslation ''chinmay'' s
        = (Chinmay_Hc (Sloka_Chinmay s), Chinmay_Author (Sloka_Chinmay s))
   \<and> pickTranslation (translationSource defaultFlags) s
        = (Siva_Et (Sloka_Siva s), Siva_Author (Sloka_Siva s))
   \<and> (translationSource flags \<in> {''siva'', ''purohit'', ''adi'', ''san'', ''tej'', ''chinmay''}
        \<and> gitaFS_ReadFile env ''gita.json'' = Inr data
        \<and> json_Unmarshal env data = Inr allSlokas
        \<and> selectSloka flags env allSlokas = Inr s \<longrightarrow>
        (\<exists>front. main flags env =
           front @
           [Write Stdout
              (wrapText (fst (pickTranslation (translationSource flags) s)) @ [CHR 0x0A]),
            Write Stdout
              (Dim @ ''('' @ snd (pickTranslation (translationSource flags) s) @ '')''
                 @ Reset @ [CHR 0x0A]),
            Write Stdout [CHR 0x0A],
            Exit 0])
        \<and> Fields (wrapText (fst (pickTranslation (translationSource flags) s)))
             = Fields (fst (pickTranslation (translationSource flags) s)))"
proof -
  have "\<exists>front. main flags env =
           front @
           [Write Stdout
              (wrapText (fst (pickTranslation (translationSource flags) s)) @ [CHR 0x0A]),
            Write Stdout
              (Dim @ ''('' @ snd (pickTranslation (translationSource flags) s) @ '')''
                 @ Reset @ [CHR 0x0A]),
            Write Stdout [CHR 0x0A],
            Exit 0]"
    if h: "translationSource flags \<in> {''siva'', ''purohit'', ''adi'', ''san'', ''tej'', ''chinmay''}"
      "gitaFS_ReadFile env ''gita.json'' = Inr data" "json_Unmarshal env data = Inr allSlokas"
      "selectSloka flags env allSlokas = Inr s"
  proof -
    have v: "validSourceLoop validSources (translationSource flags)"
      using h(1) by (simp add: validSourceLoop_set validSources_set)
    obtain front where f: "present flags allSlokas s =
       front @
       [Write Stdout (wrapText (fst (pickTranslation (translationSource flags) s)) @ [CHR 0x0A]),
        Write Stdout (Dim @ ''('' @ snd (pickTranslation (translationSource flags) s) @ '')''
           @ Reset @ [CHR 0x0A]),
        Write Stdout [CHR 0x0A]]"
      using present_tail by blast
    have "main flags env = ([ReadFile ''gita.json'', Unmarshal] @ front) @
       [Write Stdout (wrapText (fst (pickTranslation (translationSource flags) s)) @ [CHR 0x0A]),
        Write Stdout (Dim @ ''('' @ snd (pickTranslation (translationSource flags) s) @ '')''
           @ Reset @ [CHR 0x0A]),
        Write Stdout [CHR 0x0A], Exit 0]"
      by (simp add: main_loaded [OF v h(2) h(3)] h(4) f)
    then show ?thesis by blast
  qed
  moreover have "Fields (wrapText (fst (pickTranslation (translationSource flags) s)))
             = Fields (fst (pickTranslation (translationSource flags) s))"
    by (rule Fields_wrapText)
  moreover have "translationSource defaultFlags = ''siva''" by (simp add: defaultFlags_def)
  ultimately show ?thesis
    using pickTranslation_table [of s] by simp
qed

lemma ex_select_247:
  "selectSloka (defaultFlags\<lparr>translationSource := src, chapterFlag := 2, verseFlag := 47\<rparr>)
     ex_env ex_corpus = Inr ex_sloka"
  by (simp add: selectSloka_def ex_corpus_def ex_sloka_def)

lemma ex_select_247_default:
  "selectSloka (defaultFlags\<lparr>chapterFlag := 2, verseFlag := 47\<rparr>) ex_env ex_corpus = Inr ex_sloka"
  by (simp add: selectSloka_def ex_corpus_def ex_sloka_def)

lemma ex_siva_wrapped:
  "wrapText ''Do thy duty.  Seek not the fruit.''
     = ''Do thy duty.'' @ [CHR 0x0A] @ ''Seek not the fruit.''"
  "Fields ''Do thy duty.  Seek not the fruit.''
     = [''Do'', ''thy'', ''duty.'', ''Seek'', ''not'', ''the'', ''fruit.'']"
  by code_simp+

text \<open>
  On the example corpus: \<^verbatim>\<open>-translation tej -c 2 -v 47\<close> ends with the \<^verbatim>\<open>ht\<close> field and the
  author of \<^verbatim>\<open>tej\<close>; \<^verbatim>\<open>-c 2 -v 47\<close> with no source ends with the \<^verbatim>\<open>et\<close> field of \<^verbatim>\<open>siva\<close>, its
  seven words on two lines, and the author of \<^verbatim>\<open>siva\<close>.
\<close>

theorem translator_dispatch_witness:
  "(\<exists>front. main (defaultFlags\<lparr>translationSource := ''tej'', chapterFlag := 2, verseFlag := 47\<rparr>)
             ex_env =
      front @
      [Write Stdout (''tej ht'' @ [CHR 0x0A]),
       Write Stdout (Dim @ ''(Tejomayananda)'' @ Reset @ [CHR 0x0A]),
       Write Stdout [CHR 0x0A],
       Exit 0])
   \<and> (\<exists>front. main (defaultFlags\<lparr>chapterFlag := 2, verseFlag := 47\<rparr>) ex_env =
      front @
      [Write Stdout (''Do thy duty.'' @ [CHR 0x0A] @ ''Seek not the fruit.'' @ [CHR 0x0A]),
       Write Stdout (Dim @ ''(Swami Sivananda)'' @ Reset @ [CHR 0x0A]),
       Write Stdout [CHR 0x0A],
       Exit 0])
   \<and> Fields (''Do thy duty.'' @ [CHR 0x0A] @ ''Seek not the fruit.'')
        = [''Do'', ''thy'', ''duty.'', ''Seek'', ''not'', ''the'', ''fruit.'']"
proof -
  let ?f = "defaultFlags\<lparr>translationSource := ''tej'', chapterFlag := 2, verseFlag := 47\<rparr>"
  let ?d = "defaultFlags\<lparr>chapterFlag := 2, verseFlag := 47\<rparr>"
  have w: "wrapText ''tej ht'' = ''tej ht''" by code_simp
  have p: "pickTranslation ''tej'' ex_sloka = (''tej ht'', ''Tejomayananda'')"
    using translator_dispatch [of ex_sloka] by (simp add: ex_sloka_def)
  have src: "translationSource ?d = translationSource defaultFlags" by simp
  have q: "pickTranslation (translationSource ?d) ex_sloka
      = (''Do thy duty.  Seek not the fruit.'', ''Swami Sivananda'')"
    unfolding src using translator_dispatch [of ex_sloka] by (simp add: ex_sloka_def)
  have "translationSource ?f \<in> {''siva'', ''purohit'', ''adi'', ''san'', ''tej'', ''chinmay''}
        \<and> gitaFS_ReadFile ex_env ''gita.json'' = Inr ''{}''
        \<and> json_Unmarshal ex_env ''{}'' = Inr ex_corpus
        \<and> selectSloka ?f ex_env ex_corpus = Inr ex_sloka"
    by (simp add: ex_loaded ex_select_247)
  with translator_dispatch [where flags = ?f and env = ex_env and data = "''{}''"
      and allSlokas = ex_corpus and s = ex_sloka]
  have "\<exists>front. main ?f ex_env =
           front @
           [Write Stdout (wrapText (fst (pickTranslation (translationSource ?f) ex_sloka)) @ [CHR 0x0A]),
            Write Stdout (Dim @ ''('' @ snd (pickTranslation (translationSource ?f) ex_sloka) @ '')''
                 @ Reset @ [CHR 0x0A]),
            Write Stdout [CHR 0x0A],
            Exit 0]"
    by blast
  then have one: "\<exists>front. main ?f ex_env =
      front @
      [Write Stdout (''tej ht'' @ [CHR 0x0A]),
       Write Stdout (Dim @ ''(Tejomayananda)'' @ Reset @ [CHR 0x0A]),
       Write Stdout [CHR 0x0A],
       Exit 0]"
    by (simp add: p w)
  have pd: "translationSource ?d \<in> {''siva'', ''purohit'', ''adi'', ''san'', ''tej'', ''chinmay''}
        \<and> gitaFS_ReadFile ex_env ''gita.json'' = Inr ''{}''
        \<and> json_Unmarshal ex_env ''{}'' = Inr ex_corpus
        \<and> selectSloka ?d ex_env ex_corpus = Inr ex_sloka"
  proof -
    have "translationSource ?d = ''siva''" by (simp add: defaultFlags_def)
    then show ?thesis by (simp add: ex_loaded ex_select_247_default)
  qed
  note t = translator_dispatch [where flags = ?d and env = ex_env and data = "''{}''"
      and allSlokas = ex_corpus and s = ex_sloka]
  from t pd have "\<exists>front. main ?d ex_env =
           front @
           [Write Stdout (wrapText (fst (pickTranslation (translationSource ?d) ex_sloka)) @ [CHR 0x0A]),
            Write Stdout (Dim @ ''('' @ snd (pickTranslation (translationSource ?d) ex_sloka) @ '')''
                 @ Reset @ [CHR 0x0A]),
            Write Stdout [CHR 0x0A],
            Exit 0]"
    by blast
  then have two: "\<exists>front. main ?d ex_env =
      front @
      [Write Stdout (''Do thy duty.'' @ [CHR 0x0A] @ ''Seek not the fruit.'' @ [CHR 0x0A]),
       Write Stdout (Dim @ ''(Swami Sivananda)'' @ Reset @ [CHR 0x0A]),
       Write Stdout [CHR 0x0A],
       Exit 0]"
    unfolding q by (simp add: ex_siva_wrapped(1))
  from t pd have "Fields (wrapText (fst (pickTranslation (translationSource ?d) ex_sloka)))
      = Fields (fst (pickTranslation (translationSource ?d) ex_sloka))"
    by blast
  then have three: "Fields (''Do thy duty.'' @ [CHR 0x0A] @ ''Seek not the fruit.'')
        = [''Do'', ''thy'', ''duty.'', ''Seek'', ''not'', ''the'', ''fruit.'']"
    unfolding q by (simp only: fst_conv ex_siva_wrapped)
  show ?thesis
    by (intro conjI one two three)
qed

lemma selectSloka_includeChapter:
  "selectSloka (flags\<lparr>includeChapter := b\<rparr>) env allSlokas = selectSloka flags env allSlokas"
  by (simp add: selectSloka_def split: option.splits)

lemma chapterInfo_none:
  "\<forall>ch \<in> set chs. ChapterNumber ch \<noteq> n \<Longrightarrow> chapterInfo chs n = []"
  by (induction chs) auto

text \<open>
  Claim C9. With \<^verbatim>\<open>-chapter-info\<close> set and no chapter of the corpus with the number of
  the chapter of the verse selected, the block of the chapter is empty (no header, no
  translation, no meaning, no blank line), the run is the run without the flag, effect
  for effect, and it ends with status 0.
\<close>

theorem chapter_info_frame:
  assumes "includeChapter flags"
    and "translationSource flags \<in> set validSources"
    and "gitaFS_ReadFile env ''gita.json'' = Inr data"
    and "json_Unmarshal env data = Inr allSlokas"
    and "selectSloka flags env allSlokas = Inr s"
    and "\<forall>ch \<in> set (Chapters allSlokas). ChapterNumber ch \<noteq> Sloka_Chapter s"
  shows
    "main flags env = main (flags\<lparr>includeChapter := False\<rparr>) env
     \<and> chapterInfo (Chapters allSlokas) (Sloka_Chapter s) = []
     \<and> main flags env =
          [ReadFile ''gita.json'', Unmarshal]
            @ present (flags\<lparr>includeChapter := False\<rparr>) allSlokas s @ [Exit 0]"
proof -
  let ?off = "flags\<lparr>includeChapter := False\<rparr>"
  have v: "validSourceLoop validSources (translationSource flags)"
    using assms(2) by (simp add: validSourceLoop_set)
  then have v': "validSourceLoop validSources (translationSource ?off)" by simp
  have none: "chapterInfo (Chapters allSlokas) (Sloka_Chapter s) = []"
    using assms(6) by (rule chapterInfo_none)
  have p: "present flags allSlokas s = present ?off allSlokas s"
    by (simp add: present_def none)
  have m: "main flags env = [ReadFile ''gita.json'', Unmarshal] @ present flags allSlokas s @ [Exit 0]"
    by (simp add: main_loaded [OF v assms(3) assms(4)] assms(5))
  have m': "main ?off env = [ReadFile ''gita.json'', Unmarshal] @ present ?off allSlokas s @ [Exit 0]"
    by (simp add: main_loaded [OF v' assms(3) assms(4)] selectSloka_includeChapter assms(5))
  show ?thesis using none m m' p by simp
qed

text \<open>
  The first verse of the example corpus is of chapter 1, which the corpus does not
  list: \<^verbatim>\<open>-chapter-info -c 1 -v 1\<close> runs as \<^verbatim>\<open>-c 1 -v 1\<close> does. For chapter 2 the block is
  not empty.
\<close>

theorem chapter_info_frame_witness:
  "main (defaultFlags\<lparr>includeChapter := True, chapterFlag := 1, verseFlag := 1\<rparr>) ex_env
     = main (defaultFlags\<lparr>includeChapter := False, chapterFlag := 1, verseFlag := 1\<rparr>) ex_env
   \<and> last (main (defaultFlags\<lparr>includeChapter := True, chapterFlag := 1, verseFlag := 1\<rparr>) ex_env)
     = Exit 0
   \<and> chapterInfo (Chapters ex_corpus) 2 \<noteq> []"
proof -
  let ?f = "defaultFlags\<lparr>includeChapter := True, chapterFlag := 1, verseFlag := 1\<rparr>"
  let ?s = "ex_sloka\<lparr>ID := ''BG1.1'', Sloka_Chapter := 1, Verse := 1\<rparr>"
  have a: "includeChapter ?f" by simp
  have b: "translationSource ?f \<in> set validSources"
    by (simp add: defaultFlags_def validSources_set)
  have c: "selectSloka ?f ex_env ex_corpus = Inr ?s"
    by (simp add: selectSloka_def ex_corpus_def)
  have d: "\<forall>ch \<in> set (Chapters ex_corpus). ChapterNumber ch \<noteq> Sloka_Chapter ?s"
    by (simp add: ex_corpus_def ex_chapter_def)
  note t = chapter_info_frame [OF a b ex_loaded c d]
  have e: "?f\<lparr>includeChapter := False\<rparr>
      = defaultFlags\<lparr>includeChapter := False, chapterFlag := 1, verseFlag := 1\<rparr>"
    by simp
  have shown: "chapterInfo (Chapters ex_corpus) 2 \<noteq> []"
    by (simp add: ex_corpus_def ex_chapter_def)
  from t have same: "main ?f ex_env
      = main (defaultFlags\<lparr>includeChapter := False, chapterFlag := 1, verseFlag := 1\<rparr>) ex_env"
    unfolding e by blast
  from t have "main ?f ex_env =
      [ReadFile ''gita.json'', Unmarshal]
        @ present (?f\<lparr>includeChapter := False\<rparr>) ex_corpus ?s @ [Exit 0]"
    by blast
  then have "last (main ?f ex_env) = Exit 0" by (simp only: append_assoc [symmetric] last_snoc)
  with same shown show ?thesis by blast
qed

end
